theory Spec2Isabelle
  imports Complex_Main "HOL-Library.Multiset"
begin

section \<open>Python values: exceptions and list indexing\<close>

text \<open>
  The network class of the notebook is written in Python on top of numpy. An exception
  is a value of type \<open>error\<close>; a computation that may raise returns \<open>error + 'a\<close>,
  with \<open>Inl\<close> the exception, and \<open>bindE\<close> runs the next statement unless the
  previous one raised. \<open>Unmodelled\<close> is not a Python exception: it marks the operands
  of a numpy primitive that this development does not describe (arrays of more than two
  dimensions, broadcasting of unequal shapes), which a well-formed network never
  reaches.
\<close>

datatype error =
    RuntimeError string
  | IndexError
  | ValueError
  | TypeError
  | ZeroDivisionError
  | Unmodelled

definition bindE :: "error + 'a \<Rightarrow> ('a \<Rightarrow> error + 'b) \<Rightarrow> error + 'b" where
  "bindE m f = (case m of Inl e \<Rightarrow> Inl e | Inr v \<Rightarrow> f v)"

text \<open>
  \<open>xs[i]\<close> and \<open>xs[i] = v\<close> on a Python list. An index from \<open>-len(xs)\<close> up to \<open>-1\<close>
  counts from the end; one outside \<open>-len(xs) \<dots> len(xs) - 1\<close> raises IndexError.
\<close>

definition position :: "nat \<Rightarrow> int \<Rightarrow> nat option" where
  "position len i =
     (if 0 \<le> i \<and> i < int len then Some (nat i)
      else if - int len \<le> i \<and> i < 0 then Some (nat (int len + i))
      else None)"

definition getitem :: "'a list \<Rightarrow> int \<Rightarrow> error + 'a" where
  "getitem xs i =
     (case position (length xs) i of None \<Rightarrow> Inl IndexError | Some j \<Rightarrow> Inr (xs ! j))"

definition setitem :: "'a list \<Rightarrow> int \<Rightarrow> 'a \<Rightarrow> error + 'a list" where
  "setitem xs i v =
     (case position (length xs) i of None \<Rightarrow> Inl IndexError | Some j \<Rightarrow> Inr (xs[j := v]))"

text \<open>\<open>[f a b for a, b in zip(xs, ys)]\<close>, stopping at the first exception.\<close>

fun map2E :: "('a \<Rightarrow> 'b \<Rightarrow> error + 'c) \<Rightarrow> 'a list \<Rightarrow> 'b list \<Rightarrow> error + 'c list" where
  "map2E f (x # xs) (y # ys) =
     (case f x y of Inl e \<Rightarrow> Inl e
      | Inr v \<Rightarrow> (case map2E f xs ys of Inl e \<Rightarrow> Inl e | Inr vs \<Rightarrow> Inr (v # vs)))"
| "map2E f xs ys = Inr []"

section \<open>numpy arrays\<close>

text \<open>
  An \<open>ndarray\<close> is its shape and its entries in row-major order. The entries are
  float64 in the program. A finite float64 is a real number, and the entries are real
  numbers here. The sigmoid is computed in float64 arithmetic, defined below: each of
  its operations is rounded, and its exponential can overflow. The sums, differences
  and products of the other operations are computed exactly: their rounding is outside
  the model, and so are arrays with infinite or NaN entries.
\<close>

datatype ndarray = NdArray (shape: "nat list") (data: "real list")

definition wf_arr :: "ndarray \<Rightarrow> bool" where
  "wf_arr a = (length (data a) = prod_list (shape a))"

definition zeros :: "nat list \<Rightarrow> ndarray" where
  "zeros s = NdArray s (replicate (prod_list s) 0)"

definition map_arr :: "(real \<Rightarrow> real) \<Rightarrow> ndarray \<Rightarrow> ndarray" where
  "map_arr f a = NdArray (shape a) (map f (data a))"

text \<open>A Python float combined with an array.\<close>

definition rsub :: "real \<Rightarrow> ndarray \<Rightarrow> ndarray" where
  "rsub c a = map_arr (\<lambda>v. c - v) a"

definition rmul :: "real \<Rightarrow> ndarray \<Rightarrow> ndarray" where
  "rmul c a = map_arr (\<lambda>v. c * v) a"

text \<open>
  \<open>a + b\<close>, \<open>a - b\<close>, \<open>a * b\<close> on two arrays. Equal shapes combine entry by entry.
  Unequal shapes that numpy could broadcast are not described; shapes it cannot
  broadcast raise ValueError.
\<close>

definition broadcastable :: "nat list \<Rightarrow> nat list \<Rightarrow> bool" where
  "broadcastable s1 s2 =
     list_all (\<lambda>(d1, d2). d1 = d2 \<or> d1 = 1 \<or> d2 = 1) (zip (rev s1) (rev s2))"

definition elementwise :: "(real \<Rightarrow> real \<Rightarrow> real) \<Rightarrow> ndarray \<Rightarrow> ndarray \<Rightarrow> error + ndarray" where
  "elementwise f a b =
     (if shape a = shape b then Inr (NdArray (shape a) (map2 f (data a) (data b)))
      else if broadcastable (shape a) (shape b) then Inl Unmodelled
      else Inl ValueError)"

definition add :: "ndarray \<Rightarrow> ndarray \<Rightarrow> error + ndarray" where
  "add a b = elementwise (+) a b"

definition sub :: "ndarray \<Rightarrow> ndarray \<Rightarrow> error + ndarray" where
  "sub a b = elementwise (-) a b"

definition mul :: "ndarray \<Rightarrow> ndarray \<Rightarrow> error + ndarray" where
  "mul a b = elementwise (\<lambda>u v. u * v) a b"

text \<open>
  \<open>np.dot(a, b)\<close> on two 2-D arrays is the matrix product, and raises ValueError when
  the inner dimensions differ. \<open>a.T\<close> swaps the axes of a 2-D array and is the
  identity below two dimensions.
\<close>

definition matmul :: "nat \<Rightarrow> nat \<Rightarrow> nat \<Rightarrow> real list \<Rightarrow> real list \<Rightarrow> real list" where
  "matmul m k n xs ys =
     concat (map (\<lambda>i. map (\<lambda>j. sum_list (map (\<lambda>t. xs ! (i * k + t) * ys ! (t * n + j)) [0..<k]))
                           [0..<n])
                 [0..<m])"

definition dot :: "ndarray \<Rightarrow> ndarray \<Rightarrow> error + ndarray" where
  "dot a b =
     (case (shape a, shape b) of
        ([m, k], [k', n]) \<Rightarrow>
          if k = k' then Inr (NdArray [m, n] (matmul m k n (data a) (data b)))
          else Inl ValueError
      | _ \<Rightarrow> Inl Unmodelled)"

definition arr_T :: "ndarray \<Rightarrow> error + ndarray" where
  "arr_T a =
     (case shape a of
        [] \<Rightarrow> Inr a
      | [n] \<Rightarrow> Inr a
      | [m, n] \<Rightarrow>
          Inr (NdArray [n, m] (concat (map (\<lambda>j. map (\<lambda>i. data a ! (i * n + j)) [0..<m]) [0..<n])))
      | _ \<Rightarrow> Inl Unmodelled)"

text \<open>
  \<open>np.argmax(a)\<close>: the index, in the flattened array, of the first largest entry;
  ValueError on an empty array.
\<close>

fun argmax_loop :: "real list \<Rightarrow> nat \<Rightarrow> nat \<Rightarrow> real \<Rightarrow> nat" where
  "argmax_loop [] i best bv = best"
| "argmax_loop (v # vs) i best bv =
     (if bv < v then argmax_loop vs (Suc i) i v else argmax_loop vs (Suc i) best bv)"

definition argmax :: "ndarray \<Rightarrow> error + nat" where
  "argmax a = (case data a of [] \<Rightarrow> Inl ValueError | v # vs \<Rightarrow> Inr (argmax_loop vs 1 0 v))"

text \<open>
  \<open>np.random.randn(i, j)\<close>: an array of shape \<open>(i, j)\<close> filled with samples. The
  generator is a state \<open>'g\<close> and a function \<open>draw\<close> that yields one sample and the next
  state; both are parameters.
\<close>

fun draws :: "('g \<Rightarrow> real \<times> 'g) \<Rightarrow> nat \<Rightarrow> 'g \<Rightarrow> real list \<times> 'g" where
  "draws draw 0 g = ([], g)"
| "draws draw (Suc n) g =
     (case draw g of (v, g') \<Rightarrow> (case draws draw n g' of (vs, g'') \<Rightarrow> (v # vs, g'')))"

definition randn :: "('g \<Rightarrow> real \<times> 'g) \<Rightarrow> nat \<Rightarrow> nat \<Rightarrow> 'g \<Rightarrow> ndarray \<times> 'g" where
  "randn draw i j g = (case draws draw (i * j) g of (vs, g') \<Rightarrow> (NdArray [i, j] vs, g'))"

text \<open>\<open>[np.random.randn(i, j) for i, j in dims]\<close>, threading the generator.\<close>

fun randn_list :: "('g \<Rightarrow> real \<times> 'g) \<Rightarrow> (nat \<times> nat) list \<Rightarrow> 'g \<Rightarrow> ndarray list \<times> 'g" where
  "randn_list draw [] g = ([], g)"
| "randn_list draw ((i, j) # dims) g =
     (case randn draw i j g of (a, g') \<Rightarrow>
        (case randn_list draw dims g' of (as, g'') \<Rightarrow> (a # as, g'')))"

section \<open>float64 arithmetic\<close>

text \<open>
  IEEE 754 binary64, rounding to nearest with ties to even. The finite float64 are the
  integer multiples \<open>m * 2^(e - 52)\<close> with \<open>\<bar>m\<bar> < 2^53\<close> and \<open>-1022 \<le> e \<le> 1023\<close>; the
  largest is \<open>2^1024 - 2^971\<close>. An operation returns the float64 nearest to its exact
  result, and an infinity when the exact result is at least \<open>2^1024 - 2^970\<close> in
  magnitude, half a spacing above the largest float64.
\<close>

text \<open>The integer nearest to \<open>t\<close>, the even one of the two when \<open>t\<close> is halfway.\<close>

definition round_even :: "real \<Rightarrow> int" where
  "round_even t =
     (let f = \<lfloor>t\<rfloor> in
        if t - of_int f < 1 / 2 then f
        else if 1 / 2 < t - of_int f then f + 1
        else if even f then f else f + 1)"

text \<open>
  The exponent of the binade of \<open>x\<close>, which is \<open>-1022\<close> for the subnormal numbers, and
  the spacing of the float64 in that binade.
\<close>

definition exponent64 :: "real \<Rightarrow> int" where
  "exponent64 x = max \<lfloor>log 2 \<bar>x\<bar>\<rfloor> (- 1022)"

definition ulp64 :: "real \<Rightarrow> real" where
  "ulp64 x = 2 powr (of_int (exponent64 x) - 52)"

definition nearest64 :: "real \<Rightarrow> real" where
  "nearest64 x = (if x = 0 then 0 else of_int (round_even (x / ulp64 x)) * ulp64 x)"

definition overflows64 :: "real \<Rightarrow> bool" where
  "overflows64 x = (2 ^ 1024 - 2 ^ 970 \<le> \<bar>x\<bar>)"

section \<open>The global functions of the notebook\<close>

text \<open>
  \<open>sigmoid(z) = 1.0 / (1.0 + np.exp(-z))\<close>, entry by entry, with nothing between the
  argument and the exponential. The negation is exact. \<open>np.exp\<close> is taken to return the
  float64 nearest to the exponential, and \<open>inf\<close> when it overflows; then \<open>1.0 + inf\<close> is
  \<open>inf\<close> and \<open>1.0 / inf\<close> is \<open>0.0\<close>. The sum and the quotient are rounded. The
  denominator is at least 1, so the quotient cannot overflow (lemma
  \<open>sigmoid64_quotient_finite\<close>) and the result is always finite.
\<close>

definition sigmoid64 :: "real \<Rightarrow> real" where
  "sigmoid64 v =
     (if overflows64 (exp (- v)) then 0
      else let e = nearest64 (exp (- v)) in
        if overflows64 (1 + e) then 0
        else nearest64 (1 / nearest64 (1 + e)))"

definition sigmoid :: "ndarray \<Rightarrow> ndarray" where
  "sigmoid z = map_arr sigmoid64 z"


text \<open>\<open>D_sigmoid(z) = sigmoid(z) * (1 - sigmoid(z))\<close>\<close>

definition D_sigmoid :: "ndarray \<Rightarrow> error + ndarray" where
  "D_sigmoid z = mul (sigmoid z) (rsub 1 (sigmoid z))"

text \<open>\<open>D_cost(output, target) = output - target\<close>\<close>

definition D_cost :: "ndarray \<Rightarrow> ndarray \<Rightarrow> error + ndarray" where
  "D_cost output target = sub output target"

section \<open>The class NeuralNetworkMNISTBackProp\<close>

record network =
  nlayers :: nat
  layersz :: "nat list"
  biases :: "ndarray list"
  weights :: "ndarray list"

text \<open>
  The constructor. The two checks come first, in the source's order; then the biases
  are drawn for \<open>layersz[1:]\<close>, then the weights for \<open>zip(layersz[1:], layersz[:-1])\<close>.
\<close>

definition init :: "('g \<Rightarrow> real \<times> 'g) \<Rightarrow> nat list \<Rightarrow> 'g \<Rightarrow> error + (network \<times> 'g)" where
  "init draw lsz g =
     bindE (getitem lsz 0) (\<lambda>first.
       if first \<noteq> 784 then Inl (RuntimeError ''The size of the input layer must be 784'')
       else bindE (getitem lsz (- 1)) (\<lambda>lst.
         if lst \<noteq> 10 then Inl (RuntimeError ''The size of the output layer must be 10'')
         else
           (case randn_list draw (map (\<lambda>i. (i, 1)) (drop 1 lsz)) g of (bs, g1) \<Rightarrow>
              (case randn_list draw (zip (drop 1 lsz) (butlast lsz)) g1 of (ws, g2) \<Rightarrow>
                 Inr (\<lparr>nlayers = length lsz, layersz = lsz, biases = bs, weights = ws\<rparr>, g2)))))"

text \<open>\<open>feedforward\<close>: the shape check, then one step per pair of \<open>zip(biases, weights)\<close>.\<close>

fun feedforward_loop :: "(ndarray \<times> ndarray) list \<Rightarrow> ndarray \<Rightarrow> error + ndarray" where
  "feedforward_loop [] a = Inr a"
| "feedforward_loop ((b, w) # bws) a =
     bindE (dot w a) (\<lambda>wa.
     bindE (add wa b) (\<lambda>z.
       feedforward_loop bws (sigmoid z)))"

definition feedforward :: "network \<Rightarrow> ndarray \<Rightarrow> error + ndarray" where
  "feedforward net a =
     bindE (getitem (layersz net) 0) (\<lambda>n0.
       if shape a \<noteq> [n0, 1]
       then Inl (RuntimeError ''Input array has wrong shape - must be (784, 1)'')
       else feedforward_loop (zip (biases net) (weights net)) a)"

text \<open>
  \<open>backpropagate\<close>. The forward pass keeps the running activation, the list of
  activations (starting with the input) and the list of pre-activations.
\<close>

fun forward_pass ::
  "(ndarray \<times> ndarray) list \<Rightarrow> ndarray \<Rightarrow> ndarray list \<Rightarrow> ndarray list
     \<Rightarrow> error + (ndarray list \<times> ndarray list)" where
  "forward_pass [] activation activations zs = Inr (activations, zs)"
| "forward_pass ((w, b) # wbs) activation activations zs =
     bindE (dot w activation) (\<lambda>wa.
     bindE (add wa b) (\<lambda>z.
       forward_pass wbs (sigmoid z) (activations @ [sigmoid z]) (zs @ [z])))"

text \<open>
  The loop \<open>for L in range(2, self.nlayers)\<close> of the backward pass, on the list of the
  remaining values of \<open>L\<close>; its state is \<open>delta\<close> and the two gradient lists.
\<close>

fun backward_loop ::
  "network \<Rightarrow> ndarray list \<Rightarrow> ndarray list \<Rightarrow> int list \<Rightarrow> ndarray \<Rightarrow> ndarray list \<Rightarrow> ndarray list
     \<Rightarrow> error + (ndarray list \<times> ndarray list)" where
  "backward_loop net activations zs [] delta dC_dBias dC_dWeight = Inr (dC_dBias, dC_dWeight)"
| "backward_loop net activations zs (L # Ls) delta dC_dBias dC_dWeight =
     bindE (getitem (weights net) (- L + 1)) (\<lambda>w.
     bindE (arr_T w) (\<lambda>wT.
     bindE (dot wT delta) (\<lambda>wd.
     bindE (getitem zs (- L)) (\<lambda>z.
     bindE (D_sigmoid z) (\<lambda>ds.
     bindE (mul wd ds) (\<lambda>delta'.
     bindE (setitem dC_dBias (- L) delta') (\<lambda>dC_dBias'.
     bindE (getitem activations (- L - 1)) (\<lambda>a.
     bindE (arr_T a) (\<lambda>aT.
     bindE (dot delta' aT) (\<lambda>g.
     bindE (setitem dC_dWeight (- L) g) (\<lambda>dC_dWeight'.
       backward_loop net activations zs Ls delta' dC_dBias' dC_dWeight')))))))))))"

definition backpropagate ::
  "network \<Rightarrow> ndarray \<Rightarrow> ndarray \<Rightarrow> error + (ndarray list \<times> ndarray list)" where
  "backpropagate net x y =
     bindE (getitem (layersz net) 0) (\<lambda>n0.
     if shape x \<noteq> [n0, 1] then Inl (RuntimeError ''Input array has wrong shape'')
     else
     bindE (getitem (layersz net) (- 1)) (\<lambda>nlast.
     if shape y \<noteq> [nlast, 1] then Inl (RuntimeError ''Output array has wrong shape'')
     else
     bindE (forward_pass (zip (weights net) (biases net)) x [x] []) (\<lambda>(activations, zs).
     bindE (getitem activations (- 1)) (\<lambda>a_last.
     bindE (D_cost a_last y) (\<lambda>dc.
     bindE (getitem zs (- 1)) (\<lambda>z_last.
     bindE (D_sigmoid z_last) (\<lambda>ds.
     bindE (mul dc ds) (\<lambda>delta.
     bindE (setitem (map (\<lambda>b. zeros (shape b)) (biases net)) (- 1) delta) (\<lambda>dC_dBias.
     bindE (getitem activations (- 2)) (\<lambda>a.
     bindE (arr_T a) (\<lambda>aT.
     bindE (dot delta aT) (\<lambda>g.
     bindE (setitem (map (\<lambda>w. zeros (shape w)) (weights net)) (- 1) g) (\<lambda>dC_dWeight.
       backward_loop net activations zs (map int [2..<nlayers net]) delta dC_dBias dC_dWeight
     )))))))))))))"

text \<open>
  \<open>evaluate\<close>: the list of (predicted digit, label) pairs, then the number of pairs
  whose components are equal.
\<close>

fun test_results :: "network \<Rightarrow> (ndarray \<times> int) list \<Rightarrow> error + (nat \<times> int) list" where
  "test_results net [] = Inr []"
| "test_results net ((x, y) # rest) =
     bindE (feedforward net x) (\<lambda>out.
     bindE (argmax out) (\<lambda>p.
     bindE (test_results net rest) (\<lambda>rs. Inr ((p, y) # rs))))"

definition evaluate :: "network \<Rightarrow> (ndarray \<times> int) list \<Rightarrow> error + int" where
  "evaluate net test_data =
     bindE (test_results net test_data) (\<lambda>rs.
       Inr (sum_list (map (\<lambda>(x, y). if int x = y then 1 else 0) rs)))"

text \<open>
  \<open>SGD\<close>. A training example is an (input, one-hot target) pair. The batches of an
  epoch are \<open>[training_data[k:k+batchsz] for k in range(0, len(training_data), batchsz)]\<close>:
  \<open>range\<close> raises ValueError on a zero step and is empty on a negative one.
\<close>

type_synonym example = "ndarray \<times> ndarray"

definition make_batches :: "'a list \<Rightarrow> int \<Rightarrow> error + 'a list list" where
  "make_batches training_data batchsz =
     (if batchsz = 0 then Inl ValueError
      else if batchsz < 0 then Inr []
      else Inr (map (\<lambda>i. take (nat batchsz) (drop (i * nat batchsz) training_data))
                    [0..<(length training_data + nat batchsz - 1) div nat batchsz]))"

text \<open>The loop \<open>for x, y in batch\<close>, which adds each example's gradients to the two sums.\<close>

fun accumulate ::
  "network \<Rightarrow> example list \<Rightarrow> ndarray list \<Rightarrow> ndarray list
     \<Rightarrow> error + (ndarray list \<times> ndarray list)" where
  "accumulate net [] dC_dBias_sum dC_dWeight_sum = Inr (dC_dBias_sum, dC_dWeight_sum)"
| "accumulate net ((x, y) # rest) dC_dBias_sum dC_dWeight_sum =
     bindE (backpropagate net x y) (\<lambda>(dC_dBias, dC_dWeight).
     bindE (map2E add dC_dBias_sum dC_dBias) (\<lambda>bsum.
     bindE (map2E add dC_dWeight_sum dC_dWeight) (\<lambda>wsum.
       accumulate net rest bsum wsum)))"

text \<open>
  The body of \<open>for batch in batches\<close>. The weights are assigned before the new biases
  are computed, so an exception in between leaves the new weights in place.
\<close>

definition update_batch :: "network \<Rightarrow> example list \<Rightarrow> real \<Rightarrow> network \<times> error option" where
  "update_batch net batch eta =
     (case accumulate net batch (map (\<lambda>b. zeros (shape b)) (biases net))
                                (map (\<lambda>w. zeros (shape w)) (weights net)) of
        Inl e \<Rightarrow> (net, Some e)
      | Inr (dC_dBias_sum, dC_dWeight_sum) \<Rightarrow>
          if length batch = 0 then (net, Some ZeroDivisionError)
          else
            let eta_scaled = eta / real (length batch) in
            (case map2E (\<lambda>w deriv_w. sub w (rmul eta_scaled deriv_w)) (weights net) dC_dWeight_sum of
               Inl e \<Rightarrow> (net, Some e)
             | Inr ws \<Rightarrow>
                 (case map2E (\<lambda>b deriv_b. sub b (rmul eta_scaled deriv_b)) (biases net) dC_dBias_sum of
                    Inl e \<Rightarrow> (net\<lparr>weights := ws\<rparr>, Some e)
                  | Inr bs \<Rightarrow> (net\<lparr>weights := ws, biases := bs\<rparr>, None))))"

fun batch_loop :: "network \<Rightarrow> example list list \<Rightarrow> real \<Rightarrow> network \<times> error option" where
  "batch_loop net [] eta = (net, None)"
| "batch_loop net (batch # batches) eta =
     (case update_batch net batch eta of
        (net', Some e) \<Rightarrow> (net', Some e)
      | (net', None) \<Rightarrow> batch_loop net' batches eta)"

text \<open>
  What \<open>SGD\<close> reads and writes: the network, the caller's training list (shuffled in
  place), the random generator, and the lines printed. A printed line is kept as the
  epoch number, the number of correct answers and the size of the test set; the elapsed
  time is not modelled. \<open>np.random.shuffle\<close> is the parameter \<open>shuffle\<close>.
\<close>

datatype report = Report nat int nat

record 'g sgd_state =
  st_net :: network
  st_training_data :: "example list"
  st_rng :: 'g
  st_printed :: "report list"

text \<open>
  The loop \<open>for j in range(epochs)\<close>, on the list of the remaining values of \<open>j\<close>.
  Without test data the last line of the loop body formats two conversions with one
  argument, which raises TypeError.
\<close>

fun epoch_loop ::
  "('g \<Rightarrow> example list \<Rightarrow> example list \<times> 'g) \<Rightarrow> int \<Rightarrow> real \<Rightarrow> (ndarray \<times> int) list option
     \<Rightarrow> nat list \<Rightarrow> 'g sgd_state \<Rightarrow> 'g sgd_state \<times> error option" where
  "epoch_loop shuffle batchsz eta test_data [] s = (s, None)"
| "epoch_loop shuffle batchsz eta test_data (j # js) s =
     (case shuffle (st_rng s) (st_training_data s) of (td, g') \<Rightarrow>
        let s1 = s\<lparr>st_training_data := td, st_rng := g'\<rparr> in
        (case make_batches td batchsz of
           Inl e \<Rightarrow> (s1, Some e)
         | Inr batches \<Rightarrow>
             (case batch_loop (st_net s1) batches eta of
                (net', Some e) \<Rightarrow> (s1\<lparr>st_net := net'\<rparr>, Some e)
              | (net', None) \<Rightarrow>
                  let s2 = s1\<lparr>st_net := net'\<rparr> in
                  (case test_data of
                     Some (t # ts) \<Rightarrow>
                       (case evaluate net' (t # ts) of
                          Inl e \<Rightarrow> (s2, Some e)
                        | Inr n \<Rightarrow>
                            epoch_loop shuffle batchsz eta test_data js
                              (s2\<lparr>st_printed := st_printed s2 @ [Report (j + 1) n (length (t # ts))]\<rparr>))
                   | _ \<Rightarrow> (s2, Some TypeError)))))"

definition SGD ::
  "('g \<Rightarrow> example list \<Rightarrow> example list \<times> 'g) \<Rightarrow> 'g sgd_state \<Rightarrow> int \<Rightarrow> int \<Rightarrow> real
     \<Rightarrow> (ndarray \<times> int) list option \<Rightarrow> 'g sgd_state \<times> error option" where
  "SGD shuffle s epochs batchsz eta test_data =
     epoch_loop shuffle batchsz eta test_data [0..<nat epochs] s"

section \<open>The algorithm of the specification\<close>

text \<open>
  The operations the specification writes \<open>W\<cdot>a\<close>, \<open>+\<close>, \<open>-\<close>, \<open>\<odot>\<close> and \<open>^T\<close>, as total
  functions on arrays whose shapes fit: the product of an \<open>(m, k)\<close> and a \<open>(k, n)\<close>
  matrix, the entry-wise sum, difference and product of two arrays of one shape, and
  the transpose of a matrix.
\<close>

definition mat_prod :: "ndarray \<Rightarrow> ndarray \<Rightarrow> ndarray" where
  "mat_prod a b =
     NdArray [shape a ! 0, shape b ! 1]
       (matmul (shape a ! 0) (shape a ! 1) (shape b ! 1) (data a) (data b))"

definition plus_arr :: "ndarray \<Rightarrow> ndarray \<Rightarrow> ndarray" where
  "plus_arr a b = NdArray (shape a) (map2 (+) (data a) (data b))"

definition minus_arr :: "ndarray \<Rightarrow> ndarray \<Rightarrow> ndarray" where
  "minus_arr a b = NdArray (shape a) (map2 (-) (data a) (data b))"

definition times_arr :: "ndarray \<Rightarrow> ndarray \<Rightarrow> ndarray" where
  "times_arr a b = NdArray (shape a) (map2 (\<lambda>u v. u * v) (data a) (data b))"

definition transposed :: "ndarray \<Rightarrow> ndarray" where
  "transposed a =
     NdArray [shape a ! 1, shape a ! 0]
       (concat (map (\<lambda>j. map (\<lambda>i. data a ! (i * (shape a ! 1) + j)) [0..<shape a ! 0])
                    [0..<shape a ! 1]))"

text \<open>
  \<open>sigmoid_derivative(z) = sigmoid(z) * (1 - sigmoid(z))\<close> and
  \<open>cost_derivative(output, target) = output - target\<close>.
\<close>

definition sigmoid_derivative :: "ndarray \<Rightarrow> ndarray" where
  "sigmoid_derivative z = times_arr (sigmoid z) (rsub 1 (sigmoid z))"

definition cost_derivative :: "ndarray \<Rightarrow> ndarray \<Rightarrow> ndarray" where
  "cost_derivative output target = minus_arr output target"

text \<open>
  Feedforward: for each layer transition in order, \<open>z = W\<cdot>a + b\<close>, then
  \<open>a = sigmoid(z)\<close>; the result is the final \<open>a\<close>.
\<close>

definition feedforward_spec :: "network \<Rightarrow> ndarray \<Rightarrow> ndarray" where
  "feedforward_spec net a =
     foldl (\<lambda>a (b, w). sigmoid (plus_arr (mat_prod w a) b)) a (zip (biases net) (weights net))"

text \<open>
  Backpropagation, step 1: the forward pass, which keeps the pair \<open>(z, a)\<close> of every
  transition.
\<close>

fun forward_spec :: "ndarray list \<Rightarrow> ndarray list \<Rightarrow> ndarray \<Rightarrow> (ndarray \<times> ndarray) list" where
  "forward_spec (w # ws) (b # bs) a =
     (let z = plus_arr (mat_prod w a) b
      in (z, sigmoid z) # forward_spec ws bs (sigmoid z))"
| "forward_spec ws bs a = []"

text \<open>
  Step 4: the transitions before transition \<open>t\<close>, walking from the output back to the
  input. Transition \<open>i\<close> has the weights \<open>W ! i\<close>, the pre-activation \<open>zs ! i\<close> and the
  previous activation \<open>as ! i\<close> (the input for \<open>i = 0\<close>). Given the delta of transition
  \<open>t\<close>, the result lists the pair (bias-gradient, weight-gradient) of the transitions
  \<open>0, \<dots>, t - 1\<close>, input first.
\<close>

fun backward_spec ::
  "ndarray list \<Rightarrow> ndarray list \<Rightarrow> ndarray list \<Rightarrow> ndarray \<Rightarrow> nat \<Rightarrow> (ndarray \<times> ndarray) list" where
  "backward_spec W zs as delta 0 = []"
| "backward_spec W zs as delta (Suc t) =
     (let delta' = times_arr (mat_prod (transposed (W ! Suc t)) delta) (sigmoid_derivative (zs ! t))
      in backward_spec W zs as delta' t @ [(delta', mat_prod delta' (transposed (as ! t)))])"

text \<open>Steps 1 to 5 together.\<close>

definition backprop_spec :: "network \<Rightarrow> ndarray \<Rightarrow> ndarray \<Rightarrow> ndarray list \<times> ndarray list" where
  "backprop_spec net x y =
     (let trace = forward_spec (weights net) (biases net) x;
          zs = map fst trace;
          as = x # map snd trace;
          n = length (weights net);
          delta = times_arr (cost_derivative (last as) y) (sigmoid_derivative (last zs));
          grads = backward_spec (weights net) zs as delta (n - 1)
                    @ [(delta, mat_prod delta (transposed (as ! (n - 1))))]
      in (map fst grads, map snd grads))"

text \<open>
  The sum of the gradients of a batch, one array per parameter, and the update of a
  parameter list by \<open>p - c * g\<close>.
\<close>

definition sum_gradients :: "ndarray list \<Rightarrow> ndarray list list \<Rightarrow> ndarray list" where
  "sum_gradients params gs =
     foldl (\<lambda>acc g. map2 plus_arr acc g) (map (\<lambda>p. zeros (shape p)) params) gs"

definition descend :: "real \<Rightarrow> ndarray list \<Rightarrow> ndarray list \<Rightarrow> ndarray list" where
  "descend c params gs = map2 (\<lambda>p g. minus_arr p (rmul c g)) params gs"

text \<open>The index of the maximum component: the first position that holds the maximum.\<close>

definition index_of_max :: "real list \<Rightarrow> nat" where
  "index_of_max xs = length (takeWhile (\<lambda>v. v < Max (set xs)) xs)"

definition prediction :: "network \<Rightarrow> ndarray \<Rightarrow> int" where
  "prediction net x = int (index_of_max (data (feedforward_spec net x)))"

section \<open>Well-formed networks\<close>

text \<open>
  The state the constructor establishes and \<open>SGD\<close> keeps: \<open>nlayers\<close> is the number of
  layer sizes, the first size is 784 and the last is 10, and transition \<open>i\<close> has a
  weight matrix of shape \<open>(layersz[i+1], layersz[i])\<close> and a bias vector of shape
  \<open>(layersz[i+1], 1)\<close>.
\<close>

definition wf_net :: "network \<Rightarrow> bool" where
  "wf_net net =
     (nlayers net = length (layersz net) \<and>
      layersz net \<noteq> [] \<and> hd (layersz net) = 784 \<and> last (layersz net) = 10 \<and>
      length (weights net) = length (layersz net) - 1 \<and>
      length (biases net) = length (layersz net) - 1 \<and>
      (\<forall>i < length (layersz net) - 1.
         shape (weights net ! i) = [layersz net ! Suc i, layersz net ! i] \<and>
         wf_arr (weights net ! i) \<and>
         shape (biases net ! i) = [layersz net ! Suc i, 1] \<and>
         wf_arr (biases net ! i)))"

text \<open>A column vector of length \<open>n\<close> is an array of shape \<open>(n, 1)\<close>.\<close>

definition column :: "nat \<Rightarrow> ndarray \<Rightarrow> bool" where
  "column n a = (shape a = [n, 1] \<and> wf_arr a)"

definition wf_example :: "network \<Rightarrow> example \<Rightarrow> bool" where
  "wf_example net e =
     (column (layersz net ! 0) (fst e) \<and> column (last (layersz net)) (snd e))"

section \<open>Concrete networks and inputs\<close>

text \<open>
  A network of layer sizes \<open>[784, 10]\<close> and one of \<open>[784, 2, 10]\<close>, all parameters zero;
  an all-zero image, the one-hot target of the digit 0, and a flat array of 784 zeros.
  Then two networks of layer sizes \<open>[784, 10]\<close> whose biases are all 0, the weights of
  one all 1 and of the other all -2, and an image whose pixels are all 1.
\<close>

definition net2 :: network where
  "net2 = \<lparr>nlayers = 2, layersz = [784, 10],
           biases = [NdArray [10, 1] (replicate 10 0)],
           weights = [NdArray [10, 784] (replicate 7840 0)]\<rparr>"

definition net3 :: network where
  "net3 = \<lparr>nlayers = 3, layersz = [784, 2, 10],
           biases = [NdArray [2, 1] (replicate 2 0), NdArray [10, 1] (replicate 10 0)],
           weights = [NdArray [2, 784] (replicate 1568 0), NdArray [10, 2] (replicate 20 0)]\<rparr>"

definition image0 :: ndarray where
  "image0 = NdArray [784, 1] (replicate 784 0)"

definition target0 :: ndarray where
  "target0 = NdArray [10, 1] (1 # replicate 9 0)"

definition flat0 :: ndarray where
  "flat0 = NdArray [784] (replicate 784 0)"

definition net_ones :: network where
  "net_ones = \<lparr>nlayers = 2, layersz = [784, 10],
               biases = [NdArray [10, 1] (replicate 10 0)],
               weights = [NdArray [10, 784] (replicate 7840 1)]\<rparr>"

definition net_neg :: network where
  "net_neg = \<lparr>nlayers = 2, layersz = [784, 10],
              biases = [NdArray [10, 1] (replicate 10 0)],
              weights = [NdArray [10, 784] (replicate 7840 (- 2))]\<rparr>"

definition image1 :: ndarray where
  "image1 = NdArray [784, 1] (replicate 784 1)"


section \<open>Basic facts\<close>

lemma bindE_Inr [simp]: "bindE (Inr v) f = f v"
  by (simp add: bindE_def)

lemma bindE_Inl [simp]: "bindE (Inl e) f = Inl e"
  by (simp add: bindE_def)

subsection \<open>Lists, arrays and shapes\<close>

lemma position_zero: "0 < len \<Longrightarrow> position len 0 = Some 0"
  by (simp add: position_def)

lemma position_neg:
  "0 < k \<Longrightarrow> k \<le> len \<Longrightarrow> position len (- int k) = Some (len - k)"
  by (auto simp: position_def)

lemma getitem_zero: "xs \<noteq> [] \<Longrightarrow> getitem xs 0 = Inr (xs ! 0)"
  by (simp add: getitem_def position_zero)

lemma getitem_neg:
  "0 < k \<Longrightarrow> k \<le> length xs \<Longrightarrow> getitem xs (- int k) = Inr (xs ! (length xs - k))"
  by (simp add: getitem_def position_neg)

lemma setitem_neg:
  "0 < k \<Longrightarrow> k \<le> length xs \<Longrightarrow> setitem xs (- int k) v = Inr (xs[length xs - k := v])"
  by (simp add: setitem_def position_neg)

lemma getitem_last: "xs \<noteq> [] \<Longrightarrow> getitem xs (- 1) = Inr (last xs)"
  using getitem_neg [of 1 xs] by (simp add: last_conv_nth Suc_leI)

lemma shape_map_arr [simp]: "shape (map_arr f a) = shape a"
  by (simp add: map_arr_def)

lemma data_map_arr [simp]: "data (map_arr f a) = map f (data a)"
  by (simp add: map_arr_def)

lemma shape_sigmoid [simp]: "shape (sigmoid z) = shape z"
  by (simp add: sigmoid_def)

lemma data_sigmoid: "data (sigmoid z) = map sigmoid64 (data z)"
  by (simp add: sigmoid_def)

lemma shape_rsub [simp]: "shape (rsub c a) = shape a"
  by (simp add: rsub_def)

lemma shape_rmul [simp]: "shape (rmul c a) = shape a"
  by (simp add: rmul_def)

lemma shape_zeros [simp]: "shape (zeros s) = s"
  by (simp add: zeros_def)

lemma shape_plus_arr [simp]: "shape (plus_arr a b) = shape a"
  by (simp add: plus_arr_def)

lemma shape_minus_arr [simp]: "shape (minus_arr a b) = shape a"
  by (simp add: minus_arr_def)

lemma shape_times_arr [simp]: "shape (times_arr a b) = shape a"
  by (simp add: times_arr_def)

lemma shape_mat_prod [simp]: "shape (mat_prod a b) = [shape a ! 0, shape b ! 1]"
  by (simp add: mat_prod_def)

lemma shape_transp [simp]: "shape (transposed a) = [shape a ! 1, shape a ! 0]"
  by (simp add: transposed_def)

lemma shape_sigmoid_derivative [simp]: "shape (sigmoid_derivative z) = shape z"
  by (simp add: sigmoid_derivative_def)

lemma shape_cost_derivative [simp]: "shape (cost_derivative a y) = shape a"
  by (simp add: cost_derivative_def)

lemma add_same_shape: "shape a = shape b \<Longrightarrow> add a b = Inr (plus_arr a b)"
  by (simp add: add_def elementwise_def plus_arr_def)

lemma sub_same_shape: "shape a = shape b \<Longrightarrow> sub a b = Inr (minus_arr a b)"
  by (simp add: sub_def elementwise_def minus_arr_def)

lemma mul_same_shape: "shape a = shape b \<Longrightarrow> mul a b = Inr (times_arr a b)"
  by (simp add: mul_def elementwise_def times_arr_def)

lemma dot_aligned:
  "shape a = [m, k] \<Longrightarrow> shape b = [k, n] \<Longrightarrow> dot a b = Inr (mat_prod a b)"
  by (simp add: dot_def mat_prod_def)

lemma arr_T_matrix: "shape a = [m, n] \<Longrightarrow> arr_T a = Inr (transposed a)"
  by (simp add: arr_T_def transposed_def)

lemma D_sigmoid_total: "D_sigmoid z = Inr (sigmoid_derivative z)"
  by (simp add: D_sigmoid_def sigmoid_derivative_def mul_same_shape)

lemma D_cost_same_shape: "shape a = shape y \<Longrightarrow> D_cost a y = Inr (cost_derivative a y)"
  by (simp add: D_cost_def cost_derivative_def sub_same_shape)

lemma forward_pass_spec:
  "length ws = length bs \<Longrightarrow> length s = Suc (length ws) \<Longrightarrow>
   (\<forall>i < length ws. shape (ws ! i) = [s ! Suc i, s ! i] \<and> shape (bs ! i) = [s ! Suc i, 1]) \<Longrightarrow>
   shape a = [s ! 0, 1] \<Longrightarrow>
   forward_pass (zip ws bs) a acts zs =
     Inr (acts @ map snd (forward_spec ws bs a), zs @ map fst (forward_spec ws bs a))"
proof (induction ws arbitrary: bs s a acts zs)
  case Nil
  then show ?case by simp
next
  case (Cons w ws)
  from Cons.prems(1) obtain b bs' where bs: "bs = b # bs'" by (cases bs) auto
  from Cons.prems(2) obtain s0 s' where s: "s = s0 # s'" by (cases s) auto
  have w: "shape w = [s' ! 0, s0]" and b: "shape b = [s' ! 0, 1]"
    using Cons.prems(3) [rule_format, of 0] by (simp_all add: bs s)
  have a: "shape a = [s0, 1]" using Cons.prems(4) by (simp add: s)
  let ?z = "plus_arr (mat_prod w a) b"
  have d: "dot w a = Inr (mat_prod w a)" using w a by (rule dot_aligned)
  have p: "add (mat_prod w a) b = Inr ?z" by (rule add_same_shape) (simp add: w a b)
  have rest: "\<forall>i < length ws. shape (ws ! i) = [s' ! Suc i, s' ! i] \<and> shape (bs' ! i) = [s' ! Suc i, 1]"
  proof (intro allI impI)
    fix i assume "i < length ws"
    then show "shape (ws ! i) = [s' ! Suc i, s' ! i] \<and> shape (bs' ! i) = [s' ! Suc i, 1]"
      using Cons.prems(3) [rule_format, of "Suc i"] by (simp add: bs s)
  qed
  have sz: "shape (sigmoid ?z) = [s' ! 0, 1]" by (simp add: w a)
  have "forward_pass (zip ws bs') (sigmoid ?z) (acts @ [sigmoid ?z]) (zs @ [?z]) =
          Inr ((acts @ [sigmoid ?z]) @ map snd (forward_spec ws bs' (sigmoid ?z)),
               (zs @ [?z]) @ map fst (forward_spec ws bs' (sigmoid ?z)))"
    using Cons.prems(1,2) rest sz by (intro Cons.IH) (simp_all add: bs s)
  then show ?case by (simp add: bs d p Let_def)
qed


lemma forward_spec_length:
  "length bs = length ws \<Longrightarrow> length (forward_spec ws bs a) = length ws"
proof (induction ws arbitrary: bs a)
  case Nil
  then show ?case by simp
next
  case (Cons w ws)
  then obtain b bs' where "bs = b # bs'" by (cases bs) auto
  with Cons show ?case by (simp add: Let_def)
qed

lemma forward_spec_shape:
  "length bs = length ws \<Longrightarrow> length s = Suc (length ws) \<Longrightarrow>
   (\<forall>i < length ws. shape (ws ! i) = [s ! Suc i, s ! i] \<and> shape (bs ! i) = [s ! Suc i, 1]) \<Longrightarrow>
   shape a = [s ! 0, 1] \<Longrightarrow> i < length ws \<Longrightarrow>
   shape (fst (forward_spec ws bs a ! i)) = [s ! Suc i, 1] \<and>
   shape (snd (forward_spec ws bs a ! i)) = [s ! Suc i, 1]"
proof (induction ws arbitrary: bs s a i)
  case Nil
  then show ?case by simp
next
  case (Cons w ws)
  from Cons.prems(1) obtain b bs' where bs: "bs = b # bs'" by (cases bs) auto
  from Cons.prems(2) obtain s0 s' where s: "s = s0 # s'" by (cases s) auto
  have w: "shape w = [s' ! 0, s0]" and b: "shape b = [s' ! 0, 1]"
    using Cons.prems(3) [rule_format, of 0] by (simp_all add: bs s)
  have a: "shape a = [s0, 1]" using Cons.prems(4) by (simp add: s)
  let ?z = "plus_arr (mat_prod w a) b"
  have sz: "shape ?z = [s' ! 0, 1]" by (simp add: w a)
  show ?case
  proof (cases i)
    case 0
    then show ?thesis by (simp add: bs s Let_def w a)
  next
    case (Suc j)
    have rest: "\<forall>i < length ws. shape (ws ! i) = [s' ! Suc i, s' ! i] \<and> shape (bs' ! i) = [s' ! Suc i, 1]"
    proof (intro allI impI)
      fix i assume "i < length ws"
      then show "shape (ws ! i) = [s' ! Suc i, s' ! i] \<and> shape (bs' ! i) = [s' ! Suc i, 1]"
        using Cons.prems(3) [rule_format, of "Suc i"] by (simp add: bs s)
    qed
    have "shape (fst (forward_spec ws bs' (sigmoid ?z) ! j)) = [s' ! Suc j, 1] \<and>
          shape (snd (forward_spec ws bs' (sigmoid ?z) ! j)) = [s' ! Suc j, 1]"
      using Cons.prems(1,2,5) rest sz Suc by (intro Cons.IH) (simp_all add: bs s)
    then show ?thesis by (simp add: bs s Let_def Suc)
  qed
qed

lemma backward_spec_length [simp]: "length (backward_spec W zs as delta t) = t"
  by (induction t arbitrary: delta) (simp_all add: Let_def)

lemma drop_update_here: "t < length xs \<Longrightarrow> drop t (xs[t := v]) = v # drop (Suc t) xs"
  by (metis Cons_nth_drop_Suc drop_update_cancel length_list_update lessI nth_list_update_eq)

lemma backward_loop_spec:
  assumes W: "weights net = W" "length W = n"
    and zs: "length zs = n" and acts: "length acts = Suc n"
    and shW: "\<forall>i < n. shape (W ! i) = [s ! Suc i, s ! i]"
    and shz: "\<forall>i < n. shape (zs ! i) = [s ! Suc i, 1]"
    and sha: "\<forall>i < Suc n. shape (acts ! i) = [s ! i, 1]"
  shows "t < n \<Longrightarrow> length dB = n \<Longrightarrow> length dW = n \<Longrightarrow> shape delta = [s ! Suc t, 1] \<Longrightarrow>
    backward_loop net acts zs (map int [Suc n - t..<Suc n]) delta dB dW =
      Inr (map fst (backward_spec W zs acts delta t) @ drop t dB,
           map snd (backward_spec W zs acts delta t) @ drop t dW)"
proof (induction t arbitrary: delta dB dW)
  case 0
  then show ?case by simp
next
  case (Suc t)
  let ?w = "W ! Suc t" and ?z = "zs ! t" and ?a = "acts ! t"
  let ?d = "times_arr (mat_prod (transposed ?w) delta) (sigmoid_derivative ?z)"
  let ?g = "mat_prod ?d (transposed ?a)"
  have tn: "Suc t < n" by fact
  have "[n - t..<Suc n] = (n - t) # [Suc (n - t)..<Suc n]"
    by (rule upt_conv_Cons) simp
  moreover have "Suc (n - t) = Suc n - t" using tn by simp
  ultimately have upt: "[Suc n - Suc t..<Suc n] = (n - t) # [Suc n - t..<Suc n]"
    by simp
  have i1: "- int (n - t) + 1 = - int (n - Suc t)" using tn by simp
  have i2: "- int (n - t) - 1 = - int (Suc n - t)" using tn by simp
  have g1: "getitem (weights net) (- int (n - t) + 1) = Inr ?w"
    unfolding i1 using tn W getitem_neg [of "n - Suc t" W] by simp
  have shw: "shape ?w = [s ! Suc (Suc t), s ! Suc t]" using shW tn by simp
  have t1: "arr_T ?w = Inr (transposed ?w)" using shw by (rule arr_T_matrix)
  have shwT: "shape (transposed ?w) = [s ! Suc t, s ! Suc (Suc t)]" by (simp add: shw)
  have d1: "dot (transposed ?w) delta = Inr (mat_prod (transposed ?w) delta)"
    using shwT Suc.prems(4) by (rule dot_aligned)
  have g2: "getitem zs (- int (n - t)) = Inr ?z"
    using tn zs getitem_neg [of "n - t" zs] by simp
  have shz': "shape ?z = [s ! Suc t, 1]" using shz tn by simp
  have m1: "mul (mat_prod (transposed ?w) delta) (sigmoid_derivative ?z) = Inr ?d"
    by (rule mul_same_shape) (simp add: shw Suc.prems shz')
  have shd: "shape ?d = [s ! Suc t, 1]" by (simp add: shw Suc.prems)
  have s1: "setitem dB (- int (n - t)) ?d = Inr (dB[t := ?d])"
    using tn Suc.prems setitem_neg [of "n - t" dB ?d] by simp
  have g3: "getitem acts (- int (n - t) - 1) = Inr ?a"
    unfolding i2 using tn acts getitem_neg [of "Suc n - t" acts] by simp
  have sha': "shape ?a = [s ! t, 1]" using sha tn by simp
  have t2: "arr_T ?a = Inr (transposed ?a)" using sha' by (rule arr_T_matrix)
  have shaT: "shape (transposed ?a) = [1, s ! t]" by (simp add: sha')
  have d2: "dot ?d (transposed ?a) = Inr ?g"
    using shd shaT by (rule dot_aligned)
  have s2: "setitem dW (- int (n - t)) ?g = Inr (dW[t := ?g])"
    using tn Suc.prems setitem_neg [of "n - t" dW ?g] by simp
  have IH: "backward_loop net acts zs (map int [Suc n - t..<Suc n]) ?d (dB[t := ?d]) (dW[t := ?g]) =
      Inr (map fst (backward_spec W zs acts ?d t) @ drop t (dB[t := ?d]),
           map snd (backward_spec W zs acts ?d t) @ drop t (dW[t := ?g]))"
    using tn Suc.prems shd by (intro Suc.IH) simp_all
  have dr: "drop t (dB[t := ?d]) = ?d # drop (Suc t) dB" "drop t (dW[t := ?g]) = ?g # drop (Suc t) dW"
    using tn Suc.prems by (simp_all add: drop_update_here)
  have step: "backward_loop net acts zs (map int ((n - t) # [Suc n - t..<Suc n])) delta dB dW =
      backward_loop net acts zs (map int [Suc n - t..<Suc n]) ?d (dB[t := ?d]) (dW[t := ?g])"
    unfolding list.map backward_loop.simps
    by (simp only: g1 t1 d1 g2 D_sigmoid_total m1 s1 g3 t2 d2 s2 bindE_Inr)
  have spec: "backward_spec W zs acts delta (Suc t) = backward_spec W zs acts ?d t @ [(?d, ?g)]"
    by (simp add: Let_def)
  show ?case
    unfolding upt step IH dr spec by simp
qed


lemma getitem_second_last: "2 \<le> length xs \<Longrightarrow> getitem xs (- 2) = Inr (xs ! (length xs - 2))"
  using getitem_neg [of 2 xs] by simp

lemma setitem_last: "xs \<noteq> [] \<Longrightarrow> setitem xs (- 1) v = Inr (xs[length xs - 1 := v])"
  using setitem_neg [of 1 xs v] by (simp add: Suc_leI)

lemma wf_net_length: "wf_net net \<Longrightarrow> 2 \<le> length (layersz net)"
proof -
  assume wf: "wf_net net"
  then have ne: "layersz net \<noteq> []" and h: "hd (layersz net) = 784" and l: "last (layersz net) = 10"
    by (simp_all add: wf_net_def)
  show ?thesis
  proof (cases "layersz net")
    case Nil
    with ne show ?thesis by simp
  next
    case (Cons a as)
    with h l show ?thesis by (cases as) auto
  qed
qed

lemma wf_net_sizes:
  assumes "wf_net net"
  shows "length (layersz net) = Suc (length (weights net))"
    and "length (biases net) = length (weights net)"
    and "nlayers net = Suc (length (weights net))"
    and "0 < length (weights net)"
    and "layersz net ! 0 = 784"
    and "last (layersz net) = layersz net ! length (weights net)"
proof -
  have l: "2 \<le> length (layersz net)" using assms by (rule wf_net_length)
  have w: "length (weights net) = length (layersz net) - 1" using assms by (simp add: wf_net_def)
  show 1: "length (layersz net) = Suc (length (weights net))" using l w by simp
  show "length (biases net) = length (weights net)" using assms by (simp add: wf_net_def)
  show "nlayers net = Suc (length (weights net))" using assms 1 by (simp add: wf_net_def)
  show "0 < length (weights net)" using l w by simp
  show "layersz net ! 0 = 784"
    using assms hd_conv_nth [of "layersz net"] by (simp add: wf_net_def)
  have ne: "layersz net \<noteq> []" using assms by (simp add: wf_net_def)
  show "last (layersz net) = layersz net ! length (weights net)"
    using ne 1 by (simp add: last_conv_nth)
qed

lemma wf_net_shapes:
  assumes "wf_net net"
  shows "\<forall>i < length (weights net).
           shape (weights net ! i) = [layersz net ! Suc i, layersz net ! i] \<and>
           shape (biases net ! i) = [layersz net ! Suc i, 1]"
  using assms by (simp add: wf_net_def)

lemma backpropagate_spec_eq:
  assumes wf: "wf_net net"
    and x: "shape x = [layersz net ! 0, 1]"
    and y: "shape y = [last (layersz net), 1]"
  shows "backpropagate net x y = Inr (backprop_spec net x y)"
proof -
  define W B s n where "W = weights net" and "B = biases net" and "s = layersz net"
    and "n = length (weights net)"
  define trace where "trace = forward_spec W B x"
  define zs acts where "zs = map fst trace" and "acts = x # map snd trace"
  note defs = W_def B_def s_def n_def
  note sz = wf_net_sizes [OF wf, folded defs]
  note sh = wf_net_shapes [OF wf, folded defs]
  have n: "0 < n" and Sn: "Suc (n - 1) = n" using sz(4) by simp_all
  have lW: "length W = n" by (simp add: defs)
  have lB: "length B = n" using sz(2) by (simp add: defs)
  have ls: "length s = Suc n" by (rule sz)
  have x': "shape x = [s ! 0, 1]" and y': "shape y = [s ! n, 1]"
    using x y sz(6) by (simp_all add: s_def)
  have ltr: "length trace = n" unfolding trace_def using lB lW by (simp add: forward_spec_length)
  have lacts: "length acts = Suc n" and lzs: "length zs = n"
    using ltr by (simp_all add: acts_def zs_def)
  have sne: "s \<noteq> []" using ls by auto
  have g0: "getitem (layersz net) 0 = Inr (s ! 0)"
    using getitem_zero [OF sne] by (simp add: s_def)
  have g1: "getitem (layersz net) (- 1) = Inr (s ! n)"
    using getitem_last [OF sne] sz(6) by (simp add: s_def)
  have fp: "forward_pass (zip (weights net) (biases net)) x [x] [] = Inr (acts, zs)"
    using forward_pass_spec [of W B s x "[x]" "[]"] lW lB ls sh x'
    by (simp add: acts_def zs_def trace_def defs)
  have shtr: "\<forall>i < n. shape (fst (trace ! i)) = [s ! Suc i, 1] \<and> shape (snd (trace ! i)) = [s ! Suc i, 1]"
    using forward_spec_shape [of B W s x] lW lB ls sh x' by (simp add: trace_def)
  have shz: "\<forall>i < n. shape (zs ! i) = [s ! Suc i, 1]" using shtr ltr by (simp add: zs_def)
  have sha: "\<forall>i < Suc n. shape (acts ! i) = [s ! i, 1]"
  proof (intro allI impI)
    fix i assume "i < Suc n"
    then show "shape (acts ! i) = [s ! i, 1]"
      using shtr ltr x' by (cases i) (simp_all add: acts_def)
  qed
  have lasta: "last acts = acts ! n" using lacts by (metis diff_Suc_1 last_conv_nth length_0_conv nat.discI)
  have lastz: "last zs = zs ! (n - 1)" using lzs n by (metis last_conv_nth length_greater_0_conv)
  have g2: "getitem acts (- 1) = Inr (last acts)" using lacts by (intro getitem_last) auto
  have shla: "shape (last acts) = [s ! n, 1]" unfolding lasta using sha by blast
  have dc: "D_cost (last acts) y = Inr (cost_derivative (last acts) y)"
    by (rule D_cost_same_shape) (simp add: shla y')
  have g3: "getitem zs (- 1) = Inr (last zs)" using lzs n by (intro getitem_last) auto
  have shlz: "shape (last zs) = [s ! n, 1]" unfolding lastz using shz n Sn by simp
  define delta where "delta = times_arr (cost_derivative (last acts) y) (sigmoid_derivative (last zs))"
  have m: "mul (cost_derivative (last acts) y) (sigmoid_derivative (last zs)) = Inr delta"
    unfolding delta_def by (rule mul_same_shape) (simp add: shla shlz)
  have shd: "shape delta = [s ! Suc (n - 1), 1]" using Sn by (simp add: delta_def shla)
  define zB zW where "zB = map (\<lambda>b. zeros (shape b)) (biases net)"
    and "zW = map (\<lambda>w. zeros (shape w)) (weights net)"
  have lz: "length zB = n" "length zW = n" using lB lW by (simp_all add: zB_def zW_def defs)
  have zne: "zB \<noteq> []" "zW \<noteq> []" using n lz by auto
  have s1: "setitem zB (- 1) delta = Inr (zB[n - 1 := delta])"
    using setitem_last [OF zne(1), of delta] lz by simp
  define a where "a = acts ! (n - 1)"
  have g4: "getitem acts (- 2) = Inr a"
    using getitem_second_last [of acts] lacts n by (simp add: a_def)
  have sha': "shape a = [s ! (n - 1), 1]" using sha n by (simp add: a_def)
  have t: "arr_T a = Inr (transposed a)" using sha' by (rule arr_T_matrix)
  have shaT: "shape (transposed a) = [1, s ! (n - 1)]" by (simp add: sha')
  define g where "g = mat_prod delta (transposed a)"
  have d: "dot delta (transposed a) = Inr g" unfolding g_def using shd shaT by (rule dot_aligned)
  have s2: "setitem zW (- 1) g = Inr (zW[n - 1 := g])"
    using setitem_last [OF zne(2), of g] lz by simp
  have upt: "[2..<nlayers net] = [Suc n - (n - 1)..<Suc n]"
    using n sz(3) by (simp add: Suc_diff_le numeral_2_eq_2)
  have shW: "\<forall>i < n. shape (W ! i) = [s ! Suc i, s ! i]" using sh by simp
  have loop: "backward_loop net acts zs (map int [Suc n - (n - 1)..<Suc n]) delta
                (zB[n - 1 := delta]) (zW[n - 1 := g]) =
     Inr (map fst (backward_spec W zs acts delta (n - 1)) @ drop (n - 1) (zB[n - 1 := delta]),
          map snd (backward_spec W zs acts delta (n - 1)) @ drop (n - 1) (zW[n - 1 := g]))"
    using n lz
    by (intro backward_loop_spec [where n = n and s = s] lzs lacts shz sha shd shW lW) (simp_all add: defs)
  have dr: "drop (n - 1) (zB[n - 1 := delta]) = [delta]" "drop (n - 1) (zW[n - 1 := g]) = [g]"
    using n lz by (simp_all add: drop_update_here)
  have lhs: "backpropagate net x y =
     Inr (map fst (backward_spec W zs acts delta (n - 1)) @ [delta],
          map snd (backward_spec W zs acts delta (n - 1)) @ [g])"
    unfolding backpropagate_def
    by (simp only: g0 g1 x' y' fp g2 dc g3 D_sigmoid_total m s1 g4 t d s2 upt loop dr
          zB_def [symmetric] zW_def [symmetric]
          bindE_Inr if_False not_True_eq_False simp_thms prod.case)
  show ?thesis
    unfolding lhs
    by (simp add: backprop_spec_def Let_def defs trace_def zs_def acts_def delta_def g_def a_def)
qed

lemma backward_spec_shape:
  assumes shW: "\<forall>i < n. shape (W ! i) = [s ! Suc i, s ! i]"
    and sha: "\<forall>i < Suc n. shape (acts ! i) = [s ! i, 1]"
  shows "t < n \<Longrightarrow> shape delta = [s ! Suc t, 1] \<Longrightarrow> i < t \<Longrightarrow>
    shape (fst (backward_spec W zs acts delta t ! i)) = [s ! Suc i, 1] \<and>
    shape (snd (backward_spec W zs acts delta t ! i)) = [s ! Suc i, s ! i]"
proof (induction t arbitrary: delta)
  case 0
  then show ?case by simp
next
  case (Suc t)
  let ?d = "times_arr (mat_prod (transposed (W ! Suc t)) delta) (sigmoid_derivative (zs ! t))"
  have shw: "shape (W ! Suc t) = [s ! Suc (Suc t), s ! Suc t]" using shW Suc.prems(1) by simp
  have shd: "shape ?d = [s ! Suc t, 1]" by (simp add: shw Suc.prems(2))
  have sha': "shape (acts ! t) = [s ! t, 1]" using sha Suc.prems(1) by simp
  show ?case
  proof (cases "i < t")
    case True
    have "shape (fst (backward_spec W zs acts ?d t ! i)) = [s ! Suc i, 1] \<and>
          shape (snd (backward_spec W zs acts ?d t ! i)) = [s ! Suc i, s ! i]"
      using Suc.prems(1) shd True by (intro Suc.IH) simp_all
    then show ?thesis using True by (simp add: Let_def nth_append)
  next
    case False
    with Suc.prems(3) have "i = t" by simp
    then show ?thesis by (simp add: Let_def nth_append shw Suc.prems(2) sha')
  qed
qed

lemma backprop_spec_shapes:
  assumes wf: "wf_net net"
    and x: "shape x = [layersz net ! 0, 1]"
    and y: "shape y = [last (layersz net), 1]"
  shows "map shape (fst (backprop_spec net x y)) = map shape (biases net)"
    and "map shape (snd (backprop_spec net x y)) = map shape (weights net)"
proof -
  define W B s n where "W = weights net" and "B = biases net" and "s = layersz net"
    and "n = length (weights net)"
  define trace where "trace = forward_spec W B x"
  define zs acts where "zs = map fst trace" and "acts = x # map snd trace"
  define delta where "delta = times_arr (cost_derivative (last acts) y) (sigmoid_derivative (last zs))"
  define g where "g = mat_prod delta (transposed (acts ! (n - 1)))"
  define grads where "grads = backward_spec W zs acts delta (n - 1) @ [(delta, g)]"
  note defs = W_def B_def s_def n_def
  note sz = wf_net_sizes [OF wf, folded defs]
  note sh = wf_net_shapes [OF wf, folded defs]
  have n: "0 < n" and Sn: "Suc (n - 1) = n" using sz(4) by simp_all
  have lW: "length W = n" by (simp add: defs)
  have lB: "length B = n" using sz(2) by (simp add: defs)
  have ls: "length s = Suc n" by (rule sz)
  have x': "shape x = [s ! 0, 1]" and y': "shape y = [s ! n, 1]"
    using x y sz(6) by (simp_all add: s_def)
  have ltr: "length trace = n" unfolding trace_def using lB lW by (simp add: forward_spec_length)
  have lacts: "length acts = Suc n" using ltr by (simp add: acts_def)
  have shtr: "\<forall>i < n. shape (fst (trace ! i)) = [s ! Suc i, 1] \<and> shape (snd (trace ! i)) = [s ! Suc i, 1]"
    using forward_spec_shape [of B W s x] lW lB ls sh x' by (simp add: trace_def)
  have sha: "\<forall>i < Suc n. shape (acts ! i) = [s ! i, 1]"
  proof (intro allI impI)
    fix i assume "i < Suc n"
    then show "shape (acts ! i) = [s ! i, 1]"
      using shtr ltr x' by (cases i) (simp_all add: acts_def)
  qed
  have shW: "\<forall>i < n. shape (W ! i) = [s ! Suc i, s ! i]" using sh by simp
  have lasta: "last acts = acts ! n" using lacts by (metis diff_Suc_1 last_conv_nth length_0_conv nat.discI)
  have shla: "shape (last acts) = [s ! n, 1]" unfolding lasta using sha by blast
  have shd: "shape delta = [s ! Suc (n - 1), 1]" using Sn by (simp add: delta_def shla)
  have shg: "shape g = [s ! n, s ! (n - 1)]"
    using sha [rule_format, of "n - 1"] shd Sn by (simp add: g_def)
  have lg: "length grads = n" using Sn by (simp add: grads_def)
  have each: "shape (fst (grads ! i)) = [s ! Suc i, 1] \<and> shape (snd (grads ! i)) = [s ! Suc i, s ! i]"
    if "i < n" for i
  proof (cases "i < n - 1")
    case True
    have "shape (fst (backward_spec W zs acts delta (n - 1) ! i)) = [s ! Suc i, 1] \<and>
          shape (snd (backward_spec W zs acts delta (n - 1) ! i)) = [s ! Suc i, s ! i]"
      using n shd True by (intro backward_spec_shape [where n = n and s = s] shW sha) simp_all
    then show ?thesis using True by (simp add: grads_def nth_append)
  next
    case False
    with that have i: "i = n - 1" by simp
    show ?thesis using shd shg Sn by (simp add: grads_def nth_append i)
  qed
  have res: "backprop_spec net x y = (map fst grads, map snd grads)"
    by (simp add: backprop_spec_def Let_def defs trace_def zs_def acts_def delta_def g_def grads_def)
  show "map shape (fst (backprop_spec net x y)) = map shape (biases net)"
    unfolding res using lg lB each sh by (intro nth_equalityI) (simp_all add: defs)
  show "map shape (snd (backprop_spec net x y)) = map shape (weights net)"
    unfolding res using lg lW each sh by (intro nth_equalityI) (simp_all add: defs)
qed

lemma wf_net3: "wf_net net3"
  by (simp add: wf_net_def net3_def wf_arr_def numeral_2_eq_2 less_Suc_eq)

lemma wf_net2: "wf_net net2"
  by (simp add: wf_net_def net2_def wf_arr_def)

section \<open>Rounding to float64\<close>

lemma round_even_cases: "round_even t = \<lfloor>t\<rfloor> \<or> round_even t = \<lfloor>t\<rfloor> + 1"
  by (simp add: round_even_def Let_def)

lemma round_even_ge: "of_int n \<le> t \<Longrightarrow> n \<le> round_even t"
proof -
  assume "of_int n \<le> t"
  then have "n \<le> \<lfloor>t\<rfloor>" by (simp add: le_floor_iff)
  then show ?thesis using round_even_cases [of t] by auto
qed

lemma round_even_le: "t \<le> of_int n \<Longrightarrow> round_even t \<le> n"
proof -
  assume le: "t \<le> of_int n"
  have fl: "\<lfloor>t\<rfloor> \<le> n" using le by (simp add: floor_le_iff)
  show ?thesis
  proof (cases "round_even t = \<lfloor>t\<rfloor>")
    case True
    then show ?thesis using fl by simp
  next
    case False
    then have up: "round_even t = \<lfloor>t\<rfloor> + 1" using round_even_cases [of t] by simp
    have "\<not> t - of_int \<lfloor>t\<rfloor> < 1 / 2" using False by (auto simp: round_even_def Let_def)
    then have "of_int \<lfloor>t\<rfloor> < t" by linarith
    then have "of_int \<lfloor>t\<rfloor> < (of_int n :: real)" using le by linarith
    then have "\<lfloor>t\<rfloor> < n" by simp
    then show ?thesis using up by simp
  qed
qed

lemma round_even_floor: "t - of_int \<lfloor>t\<rfloor> < 1 / 2 \<Longrightarrow> round_even t = \<lfloor>t\<rfloor>"
  by (simp add: round_even_def Let_def)

lemma ulp64_pos [simp]: "0 < ulp64 x"
  by (simp add: ulp64_def)

lemma ulp64_nonneg [simp]: "0 \<le> ulp64 x"
  by (simp add: ulp64_def)

lemma ulp64_times_52: "2 powr 52 * ulp64 x = 2 powr of_int (exponent64 x)"
  unfolding ulp64_def powr_add [symmetric] by (rule arg_cong [where f = "\<lambda>r. 2 powr r"]) simp

lemma ulp64_times_53: "2 powr 53 * ulp64 x = 2 powr (of_int (exponent64 x) + 1)"
  unfolding ulp64_def powr_add [symmetric] by (rule arg_cong [where f = "\<lambda>r. 2 powr r"]) simp

lemma log2_powr: "log 2 (2 powr r) = r"
  by (rule log_powr_cancel) simp_all

lemma powr2_mono: "r \<le> s \<Longrightarrow> (2::real) powr r \<le> 2 powr s"
  by simp

lemma log2_mono: "0 < x \<Longrightarrow> x \<le> y \<Longrightarrow> log 2 x \<le> log 2 y"
  by simp

lemma exponent64_upper: "0 < x \<Longrightarrow> x < 2 powr (of_int (exponent64 x) + 1)"
proof -
  assume x: "0 < x"
  have "log 2 x < of_int \<lfloor>log 2 x\<rfloor> + 1" by linarith
  also have "\<dots> \<le> of_int (exponent64 x) + 1" using x by (simp add: exponent64_def)
  finally have "2 powr log 2 x < 2 powr (of_int (exponent64 x) + 1)" by simp
  then show ?thesis using x by simp
qed

lemma exponent64_lower: "2 powr (- 1022) \<le> x \<Longrightarrow> 2 powr of_int (exponent64 x) \<le> x"
proof -
  assume low: "2 powr (- 1022) \<le> x"
  have x: "0 < x" using low by (rule less_le_trans [rotated]) simp
  have "log 2 (2 powr (- 1022)) \<le> log 2 x" using _ low by (rule log2_mono) simp
  then have "- 1022 \<le> log 2 x" by (simp only: log2_powr)
  then have "- 1022 \<le> \<lfloor>log 2 x\<rfloor>" by (simp add: le_floor_iff)
  then have "exponent64 x = \<lfloor>log 2 x\<rfloor>" using x by (simp add: exponent64_def)
  then have "of_int (exponent64 x) \<le> log 2 x" by simp
  then have "2 powr of_int (exponent64 x) \<le> 2 powr log 2 x" by simp
  then show ?thesis using x by simp
qed

lemma nearest64_upper: "0 < x \<Longrightarrow> nearest64 x \<le> 2 powr (of_int (exponent64 x) + 1)"
proof -
  assume x: "0 < x"
  have "x / ulp64 x < 2 powr (of_int (exponent64 x) + 1) / ulp64 x"
    using exponent64_upper [OF x] by (intro divide_strict_right_mono) simp_all
  also have "\<dots> = 2 powr 53" by (simp add: ulp64_def powr_diff [symmetric])
  also have "\<dots> = of_int (2 ^ 53)" by simp
  finally have "round_even (x / ulp64 x) \<le> 2 ^ 53" by (intro round_even_le) simp
  then have "(of_int (round_even (x / ulp64 x)) :: real) \<le> of_int (2 ^ 53)" by (simp only: of_int_le_iff)
  then have "of_int (round_even (x / ulp64 x)) * ulp64 x \<le> of_int (2 ^ 53) * ulp64 x"
    by (intro mult_right_mono) simp_all
  also have "of_int (2 ^ 53) * ulp64 x = 2 powr 53 * ulp64 x" by simp
  also have "\<dots> = 2 powr (of_int (exponent64 x) + 1)"
    by (rule ulp64_times_53)
  finally show ?thesis using x by (simp add: nearest64_def)
qed

lemma nearest64_lower: "2 powr (- 1022) \<le> x \<Longrightarrow> 2 powr of_int (exponent64 x) \<le> nearest64 x"
proof -
  assume low: "2 powr (- 1022) \<le> x"
  have x: "0 < x" using low by (rule less_le_trans [rotated]) simp
  have "2 powr of_int (exponent64 x) / ulp64 x \<le> x / ulp64 x"
    using exponent64_lower [OF low] by (intro divide_right_mono) simp_all
  moreover have "2 powr of_int (exponent64 x) / ulp64 x = 2 powr 52"
    by (simp add: ulp64_def powr_diff [symmetric])
  moreover have "(2::real) powr 52 = of_int (2 ^ 52)" by simp
  ultimately have "2 ^ 52 \<le> round_even (x / ulp64 x)" by (intro round_even_ge) simp
  then have "(of_int (2 ^ 52) :: real) \<le> of_int (round_even (x / ulp64 x))" by (simp only: of_int_le_iff)
  then have le: "of_int (2 ^ 52) * ulp64 x \<le> of_int (round_even (x / ulp64 x)) * ulp64 x"
    by (intro mult_right_mono) simp_all
  have "2 powr of_int (exponent64 x) = 2 powr 52 * ulp64 x" by (rule ulp64_times_52 [symmetric])
  also have "\<dots> = of_int (2 ^ 52) * ulp64 x" by simp
  also note le
  also have "of_int (round_even (x / ulp64 x)) * ulp64 x = nearest64 x" using x by (simp add: nearest64_def)
  finally show ?thesis .
qed

lemma nearest64_nonneg: "0 \<le> x \<Longrightarrow> 0 \<le> nearest64 x"
proof -
  assume x: "0 \<le> x"
  have "0 \<le> x / ulp64 x" using x by (intro divide_nonneg_nonneg) simp_all
  then have "0 \<le> round_even (x / ulp64 x)" by (intro round_even_ge) simp
  then show ?thesis by (simp add: nearest64_def)
qed

lemma nearest64_ge_1: "1 \<le> x \<Longrightarrow> 1 \<le> nearest64 x"
proof -
  assume x: "1 \<le> x"
  have "(2::real) powr (- 1022) \<le> 2 powr 0" by (rule powr2_mono) simp
  then have low: "2 powr (- 1022) \<le> x" using x by simp
  have "log 2 1 \<le> log 2 x" using _ x by (rule log2_mono) simp
  then have "0 \<le> \<lfloor>log 2 x\<rfloor>" by simp
  then have "0 \<le> exponent64 x" using x by (simp add: exponent64_def le_max_iff_disj)
  then have "(2::real) powr 0 \<le> 2 powr of_int (exponent64 x)" by (intro powr2_mono) simp
  then show ?thesis using nearest64_lower [OF low] by simp
qed

lemma nearest64_one_plus: "0 \<le> e \<Longrightarrow> e < 2 powr (- 53) \<Longrightarrow> nearest64 (1 + e) = 1"
proof -
  assume e: "0 \<le> e" and small: "e < 2 powr (- 53)"
  have "(2::real) powr (- 53) \<le> 2 powr 0" by (rule powr2_mono) simp
  then have e1: "e < 1" using small by simp
  have "\<lfloor>log 2 (1 + e)\<rfloor> = 0"
    using e e1 by (simp add: floor_log_eq_powr_iff)
  then have ex: "exponent64 (1 + e) = 0" using e by (simp add: exponent64_def)
  have u: "ulp64 (1 + e) = 2 powr (- 52)" by (simp add: ulp64_def ex)
  have t: "(1 + e) / ulp64 (1 + e) = of_int (2 ^ 52) + e * 2 powr 52"
    by (simp add: u powr_minus field_simps)
  have "e * 2 powr 52 < 2 powr (- 53) * 2 powr 52" using small by simp
  also have "\<dots> = 1 / 2" by (simp add: powr_add [symmetric] powr_minus)
  finally have half: "e * 2 powr 52 < 1 / 2" .
  have nonneg: "0 \<le> e * 2 powr 52" using e by simp
  have fl: "\<lfloor>(1 + e) / ulp64 (1 + e)\<rfloor> = 2 ^ 52"
    unfolding t using half nonneg by (simp add: floor_eq_iff)
  have "round_even ((1 + e) / ulp64 (1 + e)) = 2 ^ 52"
    using round_even_floor [of "(1 + e) / ulp64 (1 + e)"] half unfolding fl
    by (simp add: t)
  then have "nearest64 (1 + e) = of_int (2 ^ 52) * 2 powr (- 52)" using e by (simp add: nearest64_def u)
  also have "\<dots> = 1" by (simp add: powr_minus)
  finally show ?thesis .
qed

lemma nearest64_one: "nearest64 1 = 1"
  using nearest64_one_plus [of 0] by simp

lemma nearest64_le_1: "0 \<le> x \<Longrightarrow> x \<le> 1 \<Longrightarrow> nearest64 x \<le> 1"
proof -
  assume x: "0 \<le> x" and le: "x \<le> 1"
  consider "x = 0" | "x = 1" | "0 < x" "x < 1" using x le by linarith
  then show ?thesis
  proof cases
    case 1
    then show ?thesis by (simp add: nearest64_def)
  next
    case 2
    then show ?thesis by (simp add: nearest64_one)
  next
    case 3
    have "log 2 x < 0" using 3 by simp
    then have "\<lfloor>log 2 x\<rfloor> < 0" by (simp add: floor_less_iff)
    then have fl: "\<lfloor>log 2 x\<rfloor> \<le> - 1" by linarith
    have ab: "\<bar>x\<bar> = x" using 3 by simp
    have "exponent64 x \<le> - 1" unfolding exponent64_def ab
    proof (rule max.boundedI)
      show "\<lfloor>log 2 x\<rfloor> \<le> - 1" by (rule fl)
      show "- 1022 \<le> (- 1 :: int)" by simp
    qed
    then have "of_int (exponent64 x) + 1 \<le> (0::real)" by linarith
    then have "(2::real) powr (of_int (exponent64 x) + 1) \<le> 2 powr 0"
      by (rule powr2_mono)
    then show ?thesis using nearest64_upper [OF 3(1)] by simp
  qed
qed

lemma sigmoid64_range: "0 \<le> sigmoid64 v \<and> sigmoid64 v \<le> 1"
proof -
  define e where "e = nearest64 (exp (- v))"
  define d where "d = nearest64 (1 + e)"
  have e: "0 \<le> e" unfolding e_def by (rule nearest64_nonneg) simp
  have d: "1 \<le> d" unfolding d_def using e by (intro nearest64_ge_1) simp
  have q: "0 \<le> 1 / d" "1 / d \<le> 1" using d by simp_all
  have "0 \<le> nearest64 (1 / d) \<and> nearest64 (1 / d) \<le> 1"
    using q by (simp add: nearest64_nonneg nearest64_le_1)
  then show ?thesis by (simp add: sigmoid64_def Let_def e_def d_def)
qed

lemma overflows64_small: "\<bar>x\<bar> \<le> 2 ^ 1023 \<Longrightarrow> \<not> overflows64 x"
proof -
  assume x: "\<bar>x\<bar> \<le> 2 ^ 1023"
  have a: "(2::real) ^ 970 < 2 ^ 1023" by (intro power_strict_increasing) simp_all
  have "(2::real) ^ 1024 = 2 ^ Suc 1023" by (rule arg_cong [where f = "\<lambda>n. 2 ^ n"]) simp
  then have b: "(2::real) ^ 1024 = 2 * 2 ^ 1023" by (simp only: power_Suc)
  have "c \<le> a \<Longrightarrow> b < a \<Longrightarrow> c < 2 * a - b" for a b c :: real by linarith
  from this [OF x a] have "\<bar>x\<bar> < 2 ^ 1024 - 2 ^ 970" by (simp only: b)
  then show ?thesis by (simp add: overflows64_def)
qed

lemma exp_nat: "exp (real n) = exp 1 ^ n"
  using exp_of_nat_mult [of n "1::real"] by simp

lemma sigmoid64_overflow: "overflows64 (exp (- v)) \<Longrightarrow> sigmoid64 v = 0"
  by (simp add: sigmoid64_def)

lemma sigmoid64_quotient_finite: "\<not> overflows64 (1 / nearest64 (1 + nearest64 (exp (- v))))"
proof -
  define d where "d = nearest64 (1 + nearest64 (exp (- v)))"
  have "0 \<le> nearest64 (exp (- v))" by (rule nearest64_nonneg) simp
  then have d: "1 \<le> d" unfolding d_def by (intro nearest64_ge_1) simp
  then have "\<bar>1 / d\<bar> \<le> 2 ^ 0" by simp
  also have "(2::real) ^ 0 \<le> 2 ^ 1023" by (intro power_increasing) simp_all
  finally show ?thesis unfolding d_def by (rule overflows64_small)
qed

text \<open>From 64 on the exponential is below half the spacing of the float64 at 1.\<close>

lemma sigmoid64_saturates: "64 \<le> v \<Longrightarrow> sigmoid64 v = 1"
proof -
  assume v: "64 \<le> v"
  have "(2::real) \<le> exp 1" using exp_ge_add_one_self [of "1::real"] by simp
  then have "(2::real) ^ 64 \<le> exp 1 ^ 64" by (intro power_mono) simp_all
  moreover have "exp (64::real) = exp 1 ^ 64" using exp_nat [of 64] by simp
  moreover have "exp (64::real) \<le> exp v" using v by simp
  ultimately have big: "(2::real) ^ 64 \<le> exp v" by simp
  have "exp (- v) = inverse (exp v)" by (rule exp_minus)
  also have "\<dots> \<le> inverse (2 ^ 64)" using big by (intro le_imp_inverse_le) simp_all
  also have "\<dots> = 2 powr (- 64)" by (simp add: powr_minus)
  finally have small: "exp (- v) \<le> 2 powr (- 64)" .
  define y where "y = exp (- v)"
  have y: "0 < y" "y \<le> 2 powr (- 64)" using small by (simp_all add: y_def)
  have "log 2 y \<le> log 2 (2 powr (- 64))" using y by (rule log2_mono)
  then have "log 2 y \<le> - 64" by (simp only: log2_powr)
  then have "\<lfloor>log 2 y\<rfloor> \<le> - 64" by (simp add: floor_le_iff)
  then have "exponent64 y \<le> - 64" using y(1) by (simp add: exponent64_def)
  then have "of_int (exponent64 y) + 1 \<le> (- 63 :: real)" by linarith
  then have "(2::real) powr (of_int (exponent64 y) + 1) \<le> 2 powr (- 63)"
    by (rule powr2_mono)
  moreover have "(2::real) powr (- 63) < 2 powr (- 53)" by (intro powr_less_mono) simp_all
  ultimately have e: "nearest64 y < 2 powr (- 53)" using nearest64_upper [OF y(1)] by linarith
  have e0: "0 \<le> nearest64 y" using y(1) by (intro nearest64_nonneg) simp
  have d: "nearest64 (1 + nearest64 y) = 1" using e0 e by (rule nearest64_one_plus)
  have "y \<le> 1" using y(2) by (rule order_trans) (simp add: powr_minus inverse_eq_divide)
  then have o1: "\<not> overflows64 y" using y(1) by (intro overflows64_small) simp
  have "(2::real) powr (- 53) \<le> 2 powr 0" by (rule powr2_mono) simp
  then have "\<bar>1 + nearest64 y\<bar> \<le> 2 ^ 1" using e e0 by simp
  also have "(2::real) ^ 1 \<le> 2 ^ 1023" by (intro power_increasing) simp_all
  finally have o2: "\<not> overflows64 (1 + nearest64 y)" by (rule overflows64_small)
  show ?thesis
    using o1 o2 d by (simp add: sigmoid64_def Let_def y_def [symmetric] nearest64_one)
qed

section \<open>The overflow of the exponential\<close>

lemma overflow_threshold_bounds:
  "(0::real) < 2 ^ 1024 - 2 ^ 970" "(2::real) ^ 1024 - 2 ^ 970 \<le> 2 ^ 1024"
proof -
  have "(2::real) ^ 970 < 2 ^ 1024" by (intro power_strict_increasing) simp_all
  then show "(0::real) < 2 ^ 1024 - 2 ^ 970" by (simp only: diff_gt_0_iff_gt)
  have "(0::real) \<le> 2 ^ 970" by (rule zero_le_power) simp
  then show "(2::real) ^ 1024 - 2 ^ 970 \<le> 2 ^ 1024" by (simp only: diff_le_eq le_add_same_cancel1)
qed


lemma exp_overflow_large: "1024 \<le> x \<Longrightarrow> overflows64 (exp x)"
proof -
  assume x: "1024 \<le> x"
  have "(2::real) \<le> exp 1" using exp_ge_add_one_self [of "1::real"] by simp
  then have "(2::real) ^ 1024 \<le> exp 1 ^ 1024" by (intro power_mono) simp_all
  moreover have "exp (1024::real) = exp 1 ^ 1024" using exp_nat [of 1024] by simp
  moreover have "exp (1024::real) \<le> exp x" using x by simp
  ultimately have "(2::real) ^ 1024 \<le> exp x" by linarith
  then have "(2::real) ^ 1024 - 2 ^ 970 \<le> exp x"
    using overflow_threshold_bounds(2) by (rule order_trans [rotated])
  then show ?thesis by (simp only: overflows64_def abs_exp_cancel)
qed







section \<open>Feedforward\<close>

lemma sigmoid_range: "v \<in> set (data (sigmoid z)) \<Longrightarrow> 0 \<le> v \<and> v \<le> 1"
  using sigmoid64_range by (auto simp: data_sigmoid)

lemma length_data_sigmoid [simp]: "length (data (sigmoid z)) = length (data z)"
  by (simp add: data_sigmoid)

lemma length_matmul [simp]: "length (matmul m k n xs ys) = m * n"
  by (simp add: matmul_def length_concat map_replicate_const sum_list_replicate o_def)

lemma length_affine:
  "shape w = [m, k] \<Longrightarrow> shape a = [k', 1] \<Longrightarrow> shape b = [m, 1] \<Longrightarrow> wf_arr b \<Longrightarrow>
   length (data (plus_arr (mat_prod w a) b)) = m"
  by (simp add: plus_arr_def mat_prod_def wf_arr_def)

lemma feedforward_loop_spec:
  "length bs = length ws \<Longrightarrow> length s = Suc (length ws) \<Longrightarrow>
   (\<forall>i < length ws. shape (ws ! i) = [s ! Suc i, s ! i] \<and> shape (bs ! i) = [s ! Suc i, 1]
                     \<and> wf_arr (bs ! i)) \<Longrightarrow>
   shape a = [s ! 0, 1] \<Longrightarrow> r = foldl (\<lambda>a (b, w). sigmoid (plus_arr (mat_prod w a) b)) a (zip bs ws) \<Longrightarrow>
   feedforward_loop (zip bs ws) a = Inr r \<and> shape r = [last s, 1] \<and>
   (ws \<noteq> [] \<longrightarrow> length (data r) = last s \<and> (\<forall>v \<in> set (data r). 0 \<le> v \<and> v \<le> 1))"
proof (induction ws arbitrary: bs s a r)
  case Nil
  then show ?case by (cases s) auto
next
  case (Cons w ws)
  from Cons.prems(1) obtain b bs' where bs: "bs = b # bs'" by (cases bs) auto
  from Cons.prems(2) obtain s0 s' where s: "s = s0 # s'" by (cases s) auto
  have s'ne: "s' \<noteq> []" using Cons.prems(2) by (auto simp: s)
  have w: "shape w = [s' ! 0, s0]" and b: "shape b = [s' ! 0, 1]" and wfb: "wf_arr b"
    using Cons.prems(3) [rule_format, of 0] by (simp_all add: bs s)
  have a: "shape a = [s0, 1]" using Cons.prems(4) by (simp add: s)
  let ?z = "plus_arr (mat_prod w a) b"
  have d: "dot w a = Inr (mat_prod w a)" using w a by (rule dot_aligned)
  have p: "add (mat_prod w a) b = Inr ?z" by (rule add_same_shape) (simp add: w a b)
  have rest: "\<forall>i < length ws. shape (ws ! i) = [s' ! Suc i, s' ! i] \<and> shape (bs' ! i) = [s' ! Suc i, 1]
                \<and> wf_arr (bs' ! i)"
  proof (intro allI impI)
    fix i assume "i < length ws"
    then show "shape (ws ! i) = [s' ! Suc i, s' ! i] \<and> shape (bs' ! i) = [s' ! Suc i, 1] \<and> wf_arr (bs' ! i)"
      using Cons.prems(3) [rule_format, of "Suc i"] by (simp add: bs s)
  qed
  have sz: "shape (sigmoid ?z) = [s' ! 0, 1]" by (simp add: w a)
  have lz: "length (data (sigmoid ?z)) = s' ! 0" using length_affine [OF w a b wfb] by simp
  have r: "r = foldl (\<lambda>a (b, w). sigmoid (plus_arr (mat_prod w a) b)) (sigmoid ?z) (zip bs' ws)"
    using Cons.prems(5) by (simp add: bs)
  have IH: "feedforward_loop (zip bs' ws) (sigmoid ?z) = Inr r \<and> shape r = [last s', 1] \<and>
        (ws \<noteq> [] \<longrightarrow> length (data r) = last s' \<and> (\<forall>v \<in> set (data r). 0 \<le> v \<and> v \<le> 1))"
    using Cons.prems(1,2) rest sz r by (intro Cons.IH) (simp_all add: bs s)
  have run: "feedforward_loop (zip bs (w # ws)) a = Inr r" using IH by (simp add: bs d p)
  have last: "last s = last s'" using s'ne by (simp add: s)
  show ?case
  proof (cases "ws = []")
    case True
    then have "r = sigmoid ?z" using r Cons.prems(1) by (simp add: bs)
    moreover have "last s' = s' ! 0" using Cons.prems(2) True by (cases s') (simp_all add: s)
    ultimately show ?thesis using run sz lz last sigmoid_range by auto
  next
    case False
    then show ?thesis using run IH last by simp
  qed
qed

lemma feedforward_facts:
  assumes "wf_net net" and "shape a = [layersz net ! 0, 1]"
  shows "feedforward net a = Inr (feedforward_spec net a)
    \<and> shape (feedforward_spec net a) = [last (layersz net), 1]
    \<and> length (data (feedforward_spec net a)) = last (layersz net)
    \<and> (\<forall>v \<in> set (data (feedforward_spec net a)). 0 \<le> v \<and> v \<le> 1)"
proof -
  note sz = wf_net_sizes [OF assms(1)]
  have sh: "\<forall>i < length (weights net).
      shape (weights net ! i) = [layersz net ! Suc i, layersz net ! i] \<and>
      shape (biases net ! i) = [layersz net ! Suc i, 1] \<and> wf_arr (biases net ! i)"
    using assms(1) by (simp add: wf_net_def)
  have ne: "weights net \<noteq> []" using sz(4) by auto
  have lne: "layersz net \<noteq> []" using sz(1) by auto
  have "feedforward_loop (zip (biases net) (weights net)) a = Inr (feedforward_spec net a)
      \<and> shape (feedforward_spec net a) = [last (layersz net), 1]
      \<and> (weights net \<noteq> [] \<longrightarrow> length (data (feedforward_spec net a)) = last (layersz net)
            \<and> (\<forall>v \<in> set (data (feedforward_spec net a)). 0 \<le> v \<and> v \<le> 1))"
    using sz(2) sz(1) sh assms(2) by (rule feedforward_loop_spec) (simp add: feedforward_spec_def)
  then show ?thesis
    using ne assms(2) getitem_zero [OF lne] by (simp add: feedforward_def)
qed

text \<open>
  Claim C3, as it holds of the code. For a well-formed network and an input of shape
  \<open>(layersz[0], 1)\<close>, \<open>feedforward\<close> returns without an exception the result of applying
  \<open>z = W\<cdot>a + b\<close>, then \<open>a = sigmoid(z)\<close>, for each layer transition in order
  (\<open>feedforward_spec\<close>). The result is a column vector whose length is the output layer
  size, and every component is between 0 and 1, the bounds included: the float64
  sigmoid reaches both. The function returns the output only: the source assigns to no
  attribute of the network, which is therefore an argument and not a result.
\<close>

theorem feedforward_computes_spec:
  assumes "wf_net net" and "shape a = [layersz net ! 0, 1]"
  shows "feedforward net a = Inr (feedforward_spec net a)
    \<and> shape (feedforward_spec net a) = [last (layersz net), 1]
    \<and> length (data (feedforward_spec net a)) = last (layersz net)
    \<and> (\<forall>v \<in> set (data (feedforward_spec net a)). 0 \<le> v \<and> v \<le> 1)"
  using assms by (rule feedforward_facts)

theorem feedforward_computes_spec_witness:
  "wf_net net2 \<and> shape image0 = [layersz net2 ! 0, 1]
   \<and> feedforward net2 image0 = Inr (feedforward_spec net2 image0)
   \<and> shape (feedforward_spec net2 image0) = [10, 1]
   \<and> length (data (feedforward_spec net2 image0)) = 10"
proof -
  have a: "shape image0 = [layersz net2 ! 0, 1]" by (simp add: image0_def net2_def)
  show ?thesis
    using feedforward_computes_spec [OF wf_net2 a] wf_net2 a by (simp add: net2_def)
qed

lemma concat_replicate_replicate:
  "concat (replicate m (replicate n x)) = replicate (m * n) x"
  by (induction m) (simp_all add: replicate_add)

lemma matmul_replicate:
  "matmul m k n (replicate (m * k) c) (replicate (k * n) d) = replicate (m * n) (real k * (c * d))"
proof -
  have entry: "sum_list (map (\<lambda>t. replicate (m * k) c ! (i * k + t) * replicate (k * n) d ! (t * n + j))
                          [0..<k]) = real k * (c * d)"
    if i: "i < m" and j: "j < n" for i j
  proof -
    have "replicate (m * k) c ! (i * k + t) * replicate (k * n) d ! (t * n + j) = c * d"
      if t: "t < k" for t
    proof -
      have "i * k + t < Suc i * k" using t by simp
      also have "\<dots> \<le> m * k" using i by (intro mult_le_mono1) simp
      finally have a: "i * k + t < m * k" .
      have "t * n + j < Suc t * n" using j by simp
      also have "\<dots> \<le> k * n" using t by (intro mult_le_mono1) simp
      finally have b: "t * n + j < k * n" .
      show ?thesis using a b by simp
    qed
    then have "map (\<lambda>t. replicate (m * k) c ! (i * k + t) * replicate (k * n) d ! (t * n + j)) [0..<k]
        = map (\<lambda>t. c * d) [0..<k]"
      by (intro map_cong refl) simp
    then show ?thesis by (simp add: map_replicate_const sum_list_replicate)
  qed
  have row: "map (\<lambda>j. sum_list (map (\<lambda>t. replicate (m * k) c ! (i * k + t)
                                          * replicate (k * n) d ! (t * n + j)) [0..<k])) [0..<n]
      = replicate n (real k * (c * d))" if i: "i < m" for i
  proof -
    have "map (\<lambda>j. sum_list (map (\<lambda>t. replicate (m * k) c ! (i * k + t)
                                          * replicate (k * n) d ! (t * n + j)) [0..<k])) [0..<n]
        = map (\<lambda>j. real k * (c * d)) [0..<n]"
      using entry [OF i] by (intro map_cong refl) simp
    then show ?thesis by (simp add: map_replicate_const)
  qed
  have "matmul m k n (replicate (m * k) c) (replicate (k * n) d)
      = concat (map (\<lambda>i. replicate n (real k * (c * d))) [0..<m])"
    unfolding matmul_def using row by (intro arg_cong [where f = concat] map_cong refl) simp
  then show ?thesis by (simp add: map_replicate_const concat_replicate_replicate)
qed

lemma wf_net_ones: "wf_net net_ones"
  by (simp add: wf_net_def net_ones_def wf_arr_def)

lemma feedforward_spec_ones:
  "feedforward_spec net_ones image1 = NdArray [10, 1] (replicate 10 1)"
proof -
  have m: "matmul 10 784 1 (replicate (10 * 784) 1) (replicate (784 * 1) 1)
      = replicate (10 * 1) (real 784 * (1 * 1))"
    by (rule matmul_replicate)
  have p: "mat_prod (NdArray [10, 784] (replicate 7840 1)) image1 = NdArray [10, 1] (replicate 10 784)"
    using m by (simp add: mat_prod_def image1_def)
  have z: "plus_arr (NdArray [10, 1] (replicate 10 784)) (NdArray [10, 1] (replicate 10 0))
      = NdArray [10, 1] (replicate 10 784)"
    by (simp add: plus_arr_def)
  have s: "sigmoid (NdArray [10, 1] (replicate 10 784)) = NdArray [10, 1] (replicate 10 1)"
    by (simp add: sigmoid_def map_arr_def sigmoid64_saturates)
  have "feedforward_spec net_ones image1
      = sigmoid (plus_arr (mat_prod (NdArray [10, 784] (replicate 7840 1)) image1)
                          (NdArray [10, 1] (replicate 10 0)))"
    by (simp add: feedforward_spec_def net_ones_def)
  then show ?thesis by (simp only: p z s)
qed

lemma wf_net_neg: "wf_net net_neg"
  by (simp add: wf_net_def net_neg_def wf_arr_def)

lemma feedforward_spec_neg:
  "feedforward_spec net_neg image1 = NdArray [10, 1] (replicate 10 0)"
proof -
  have m: "matmul 10 784 1 (replicate (10 * 784) (- 2)) (replicate (784 * 1) 1)
      = replicate (10 * 1) (real 784 * (- 2 * 1))"
    by (rule matmul_replicate)
  have p: "mat_prod (NdArray [10, 784] (replicate 7840 (- 2))) image1
      = NdArray [10, 1] (replicate 10 (- 1568))"
    using m by (simp add: mat_prod_def image1_def)
  have z: "plus_arr (NdArray [10, 1] (replicate 10 (- 1568))) (NdArray [10, 1] (replicate 10 0))
      = NdArray [10, 1] (replicate 10 (- 1568))"
    by (simp add: plus_arr_def)
  have "overflows64 (exp (- (- 1568)))" by (rule exp_overflow_large) simp
  then have "sigmoid64 (- 1568) = 0" by (rule sigmoid64_overflow)
  then have s: "sigmoid (NdArray [10, 1] (replicate 10 (- 1568))) = NdArray [10, 1] (replicate 10 0)"
    by (simp add: sigmoid_def map_arr_def)
  have "feedforward_spec net_neg image1
      = sigmoid (plus_arr (mat_prod (NdArray [10, 784] (replicate 7840 (- 2))) image1)
                          (NdArray [10, 1] (replicate 10 0)))"
    by (simp add: feedforward_spec_def net_neg_def)
  then show ?thesis by (simp only: p z s)
qed

text \<open>
  Claim C3, as the specification states it, fails at both bounds. The image has all
  pixels 1 and the networks are well formed, with biases 0. With all weights 1, every
  \<open>z\<close> of the output layer is 784, the exponential rounds to 0 and \<open>feedforward\<close> returns
  ten components equal to 1. With all weights -2, every \<open>z\<close> is -1568, the exponential
  overflows and \<open>feedforward\<close> returns ten components equal to 0.
\<close>

theorem feedforward_reaches_bounds_counterexample:
  "wf_net net_ones \<and> wf_net net_neg \<and> shape image1 = [784, 1]
   \<and> layersz net_ones ! 0 = 784 \<and> layersz net_neg ! 0 = 784
   \<and> feedforward net_ones image1 = Inr (NdArray [10, 1] (replicate 10 1))
   \<and> feedforward net_neg image1 = Inr (NdArray [10, 1] (replicate 10 0))"
proof -
  have a: "shape image1 = [layersz net_ones ! 0, 1]" by (simp add: image1_def net_ones_def)
  have b: "shape image1 = [layersz net_neg ! 0, 1]" by (simp add: image1_def net_neg_def)
  have "feedforward net_ones image1 = Inr (feedforward_spec net_ones image1)"
    using feedforward_facts [OF wf_net_ones a] by (rule conjunct1)
  then have f: "feedforward net_ones image1 = Inr (NdArray [10, 1] (replicate 10 1))"
    by (simp only: feedforward_spec_ones)
  have "feedforward net_neg image1 = Inr (feedforward_spec net_neg image1)"
    using feedforward_facts [OF wf_net_neg b] by (rule conjunct1)
  then have g: "feedforward net_neg image1 = Inr (NdArray [10, 1] (replicate 10 0))"
    by (simp only: feedforward_spec_neg)
  have sh: "shape image1 = [784, 1]" by (simp add: image1_def)
  have l1: "layersz net_ones ! 0 = 784" by (simp add: net_ones_def)
  have l2: "layersz net_neg ! 0 = 784" by (simp add: net_neg_def)
  show ?thesis using wf_net_ones wf_net_neg sh l1 l2 f g by (intro conjI)
qed

section \<open>Backpropagation\<close>

text \<open>
  Claim C1. For a well-formed network, an input of shape \<open>(layersz[0], 1)\<close> and a
  target of shape \<open>(layersz[-1], 1)\<close>, \<open>backpropagate\<close> returns without an exception,
  and what it returns is the gradient pair of the specification's algorithm
  (\<open>backprop_spec\<close>: the forward pass that keeps every \<open>z\<close> and \<open>a\<close>, the output-layer
  delta, then the earlier transitions from the output back to the input). Both lists
  have one entry per layer transition, ordered from the input to the output, and every
  entry has the shape of its parameter.
\<close>

theorem backpropagate_computes_spec:
  assumes "wf_net net"
    and "shape x = [layersz net ! 0, 1]"
    and "shape y = [last (layersz net), 1]"
  shows "backpropagate net x y = Inr (backprop_spec net x y)
    \<and> length (fst (backprop_spec net x y)) = nlayers net - 1
    \<and> length (snd (backprop_spec net x y)) = nlayers net - 1
    \<and> map shape (fst (backprop_spec net x y)) = map shape (biases net)
    \<and> map shape (snd (backprop_spec net x y)) = map shape (weights net)"
proof -
  note sh = backprop_spec_shapes [OF assms]
  have "length (fst (backprop_spec net x y)) = length (biases net)"
    using sh(1) by (rule map_eq_imp_length_eq)
  moreover have "length (snd (backprop_spec net x y)) = length (weights net)"
    using sh(2) by (rule map_eq_imp_length_eq)
  ultimately show ?thesis
    using backpropagate_spec_eq [OF assms] sh wf_net_sizes(2,3) [OF assms(1)] by simp
qed

theorem backpropagate_computes_spec_witness:
  "wf_net net3 \<and> shape image0 = [layersz net3 ! 0, 1] \<and> shape target0 = [last (layersz net3), 1]
   \<and> backpropagate net3 image0 target0 = Inr (backprop_spec net3 image0 target0)
   \<and> map shape (fst (backprop_spec net3 image0 target0)) = [[2, 1], [10, 1]]
   \<and> map shape (snd (backprop_spec net3 image0 target0)) = [[2, 784], [10, 2]]"
proof -
  have x: "shape image0 = [layersz net3 ! 0, 1]" by (simp add: image0_def net3_def)
  have y: "shape target0 = [last (layersz net3), 1]" by (simp add: target0_def net3_def)
  show ?thesis
    using backpropagate_computes_spec [OF wf_net3 x y] wf_net3 x y by (simp add: net3_def)
qed

section \<open>Shape checks\<close>

lemma feedforward_wrong_shape:
  "layersz net \<noteq> [] \<Longrightarrow> shape a \<noteq> [layersz net ! 0, 1] \<Longrightarrow>
   feedforward net a = Inl (RuntimeError ''Input array has wrong shape - must be (784, 1)'')"
  by (simp add: feedforward_def getitem_zero)

lemma backpropagate_wrong_input:
  "layersz net \<noteq> [] \<Longrightarrow> shape x \<noteq> [layersz net ! 0, 1] \<Longrightarrow>
   backpropagate net x y = Inl (RuntimeError ''Input array has wrong shape'')"
  by (simp add: backpropagate_def getitem_zero)

lemma backpropagate_wrong_target:
  "layersz net \<noteq> [] \<Longrightarrow> shape x = [layersz net ! 0, 1] \<Longrightarrow> shape y \<noteq> [last (layersz net), 1] \<Longrightarrow>
   backpropagate net x y = Inl (RuntimeError ''Output array has wrong shape'')"
  by (simp add: backpropagate_def getitem_zero getitem_last)

lemma wf_net_nonempty: "wf_net net \<Longrightarrow> layersz net \<noteq> []"
  by (simp add: wf_net_def)

text \<open>
  Claim C5. A vector of length \<open>n\<close> is an array of shape \<open>(n, 1)\<close>. On a well-formed
  network, \<open>feedforward\<close> raises exactly when the input's shape is not
  \<open>(layersz[0], 1)\<close>, and \<open>backpropagate\<close> raises exactly when the input's shape is not
  \<open>(layersz[0], 1)\<close> or the target's shape is not \<open>(layersz[-1], 1)\<close>; the exception
  is then the RuntimeError of the shape check, and no other exception occurs. The
  checks are the first statements of both methods, which assign to no attribute of the
  network: the result is either the exception or the value, and the network is an
  argument only.
\<close>

theorem shape_mismatch_iff:
  assumes "wf_net net"
  shows "((\<exists>msg. feedforward net a = Inl (RuntimeError msg)) \<longleftrightarrow> shape a \<noteq> [layersz net ! 0, 1])
    \<and> ((\<exists>e. feedforward net a = Inl e) \<longleftrightarrow> shape a \<noteq> [layersz net ! 0, 1])
    \<and> ((\<exists>msg. backpropagate net x y = Inl (RuntimeError msg)) \<longleftrightarrow>
          (shape x \<noteq> [layersz net ! 0, 1] \<or> shape y \<noteq> [last (layersz net), 1]))
    \<and> ((\<exists>e. backpropagate net x y = Inl e) \<longleftrightarrow>
          (shape x \<noteq> [layersz net ! 0, 1] \<or> shape y \<noteq> [last (layersz net), 1]))
    \<and> (shape a = [n, 1] \<longrightarrow> ((\<exists>e. feedforward net a = Inl e) \<longleftrightarrow> n \<noteq> layersz net ! 0))
    \<and> (shape x = [n, 1] \<and> shape y = [m, 1] \<longrightarrow>
          ((\<exists>e. backpropagate net x y = Inl e) \<longleftrightarrow>
             (n \<noteq> layersz net ! 0 \<or> m \<noteq> last (layersz net))))"
proof -
  note ne = wf_net_nonempty [OF assms]
  have f1: "feedforward net a = Inr (feedforward_spec net a)" if "shape a = [layersz net ! 0, 1]"
    using feedforward_facts [OF assms that] by simp
  have f2: "\<exists>msg. feedforward net a = Inl (RuntimeError msg)" if "shape a \<noteq> [layersz net ! 0, 1]"
    using feedforward_wrong_shape [OF ne that] by blast
  have b1: "backpropagate net x y = Inr (backprop_spec net x y)"
    if "shape x = [layersz net ! 0, 1]" "shape y = [last (layersz net), 1]"
    using backpropagate_spec_eq [OF assms that] .
  have b2: "\<exists>msg. backpropagate net x y = Inl (RuntimeError msg)"
    if "shape x \<noteq> [layersz net ! 0, 1] \<or> shape y \<noteq> [last (layersz net), 1]"
    using that backpropagate_wrong_input [OF ne, of x y] backpropagate_wrong_target [OF ne, of x y]
    by (cases "shape x = [layersz net ! 0, 1]") auto
  have F: "(\<exists>msg. feedforward net a = Inl (RuntimeError msg)) \<longleftrightarrow> shape a \<noteq> [layersz net ! 0, 1]"
    using f1 f2 by (cases "shape a = [layersz net ! 0, 1]") auto
  have F': "(\<exists>e. feedforward net a = Inl e) \<longleftrightarrow> shape a \<noteq> [layersz net ! 0, 1]"
    using f1 f2 by (cases "shape a = [layersz net ! 0, 1]") auto
  have Bk: "(\<exists>msg. backpropagate net x y = Inl (RuntimeError msg)) \<longleftrightarrow>
          (shape x \<noteq> [layersz net ! 0, 1] \<or> shape y \<noteq> [last (layersz net), 1])"
    using b1 b2 by (cases "shape x \<noteq> [layersz net ! 0, 1] \<or> shape y \<noteq> [last (layersz net), 1]") auto
  have Bk': "(\<exists>e. backpropagate net x y = Inl e) \<longleftrightarrow>
          (shape x \<noteq> [layersz net ! 0, 1] \<or> shape y \<noteq> [last (layersz net), 1])"
    using b1 b2 by (cases "shape x \<noteq> [layersz net ! 0, 1] \<or> shape y \<noteq> [last (layersz net), 1]") auto
  have C: "shape a = [n, 1] \<longrightarrow> ((\<exists>e. feedforward net a = Inl e) \<longleftrightarrow> n \<noteq> layersz net ! 0)"
    using F' by auto
  have D: "shape x = [n, 1] \<and> shape y = [m, 1] \<longrightarrow>
          ((\<exists>e. backpropagate net x y = Inl e) \<longleftrightarrow>
             (n \<noteq> layersz net ! 0 \<or> m \<noteq> last (layersz net)))"
    using Bk' by auto
  show ?thesis by (intro conjI F F' Bk Bk' C D)
qed

theorem shape_mismatch_iff_witness:
  "wf_net net2
   \<and> (\<exists>msg. feedforward net2 flat0 = Inl (RuntimeError msg))
   \<and> \<not> (\<exists>e. feedforward net2 image0 = Inl e)
   \<and> (\<exists>msg. backpropagate net2 image0 flat0 = Inl (RuntimeError msg))
   \<and> \<not> (\<exists>e. backpropagate net2 image0 target0 = Inl e)"
proof -
  have s: "shape flat0 \<noteq> [layersz net2 ! 0, 1]" "shape image0 = [layersz net2 ! 0, 1]"
    "shape target0 = [last (layersz net2), 1]" "shape flat0 \<noteq> [last (layersz net2), 1]"
    by (simp_all add: net2_def flat0_def image0_def target0_def)
  note t1 = shape_mismatch_iff [OF wf_net2, of flat0 image0 flat0 0 0]
  note t2 = shape_mismatch_iff [OF wf_net2, of image0 image0 target0 0 0]
  have 1: "\<exists>msg. feedforward net2 flat0 = Inl (RuntimeError msg)" using t1 s by blast
  have 2: "\<not> (\<exists>e. feedforward net2 image0 = Inl e)" using t2 s by blast
  have 3: "\<exists>msg. backpropagate net2 image0 flat0 = Inl (RuntimeError msg)" using t1 s by blast
  have 4: "\<not> (\<exists>e. backpropagate net2 image0 target0 = Inl e)" using t2 s by blast
  show ?thesis by (intro conjI wf_net2 1 2 3 4)
qed

text \<open>
  Claim C10. On a well-formed network, \<open>feedforward\<close> and \<open>backpropagate\<close> reject
  every input whose shape is not exactly \<open>(layersz[0], 1)\<close>, whatever the number of
  its entries. A flat array of shape \<open>(784,)\<close> with 784 entries gets the same exception
  as a column of a wrong length, and an input that either method accepts has the shape
  \<open>(784, 1)\<close>.
\<close>

theorem only_columns_accepted:
  assumes "wf_net net"
  shows "(shape a \<noteq> [layersz net ! 0, 1] \<longrightarrow>
            feedforward net a = Inl (RuntimeError ''Input array has wrong shape - must be (784, 1)'')
          \<and> backpropagate net a y = Inl (RuntimeError ''Input array has wrong shape''))
    \<and> (shape a = [784] \<longrightarrow> length (data a) = 784 \<longrightarrow> shape b = [n, 1] \<longrightarrow> n \<noteq> 784 \<longrightarrow>
            feedforward net a = feedforward net b \<and> backpropagate net a y = backpropagate net b y
          \<and> (\<exists>msg. feedforward net a = Inl (RuntimeError msg)))
    \<and> ((\<exists>out. feedforward net a = Inr out) \<longrightarrow> shape a = [784, 1])
    \<and> ((\<exists>g. backpropagate net a y = Inr g) \<longrightarrow> shape a = [784, 1])"
proof -
  note ne = wf_net_nonempty [OF assms]
  have n0: "layersz net ! 0 = 784" using assms by (rule wf_net_sizes)
  have rej: "feedforward net c = Inl (RuntimeError ''Input array has wrong shape - must be (784, 1)'')
      \<and> backpropagate net c y = Inl (RuntimeError ''Input array has wrong shape'')"
    if "shape c \<noteq> [784, 1]" for c
    using that feedforward_wrong_shape [OF ne, of c] backpropagate_wrong_input [OF ne, of c y]
    by (simp add: n0)
  have 1: "shape a \<noteq> [layersz net ! 0, 1] \<longrightarrow>
            feedforward net a = Inl (RuntimeError ''Input array has wrong shape - must be (784, 1)'')
          \<and> backpropagate net a y = Inl (RuntimeError ''Input array has wrong shape'')"
    using rej [of a] by (simp add: n0)
  have 2: "shape a = [784] \<longrightarrow> length (data a) = 784 \<longrightarrow> shape b = [n, 1] \<longrightarrow> n \<noteq> 784 \<longrightarrow>
            feedforward net a = feedforward net b \<and> backpropagate net a y = backpropagate net b y
          \<and> (\<exists>msg. feedforward net a = Inl (RuntimeError msg))"
    using rej [of a] rej [of b] by simp
  have 3: "(\<exists>out. feedforward net a = Inr out) \<longrightarrow> shape a = [784, 1]"
    using rej [of a] by (cases "shape a = [784, 1]") simp_all
  have 4: "(\<exists>g. backpropagate net a y = Inr g) \<longrightarrow> shape a = [784, 1]"
    using rej [of a] by (cases "shape a = [784, 1]") simp_all
  show ?thesis using 1 2 3 4 by blast
qed

theorem only_columns_accepted_witness:
  "wf_net net2 \<and> shape flat0 = [784] \<and> length (data flat0) = 784
   \<and> feedforward net2 flat0 = feedforward net2 (NdArray [3, 1] [0, 0, 0])
   \<and> backpropagate net2 flat0 target0 = backpropagate net2 (NdArray [3, 1] [0, 0, 0]) target0
   \<and> feedforward net2 flat0 = Inl (RuntimeError ''Input array has wrong shape - must be (784, 1)'')
   \<and> backpropagate net2 flat0 target0 = Inl (RuntimeError ''Input array has wrong shape'')"
proof -
  have sh: "shape flat0 = [784]" "length (data flat0) = 784" by (simp_all add: flat0_def)
  have n: "shape flat0 \<noteq> [layersz net2 ! 0, 1]" by (simp add: flat0_def)
  note t = only_columns_accepted [OF wf_net2, of flat0 target0 "NdArray [3, 1] [0, 0, 0]" 3]
  from t n have 1:
    "feedforward net2 flat0 = Inl (RuntimeError ''Input array has wrong shape - must be (784, 1)'')
     \<and> backpropagate net2 flat0 target0 = Inl (RuntimeError ''Input array has wrong shape'')"
    by blast
  have b: "shape (NdArray [3, 1] [0, 0, 0]) = [3, 1]" "(3::nat) \<noteq> 784" by simp_all
  from t sh b have 2:
    "feedforward net2 flat0 = feedforward net2 (NdArray [3, 1] [0, 0, 0])
     \<and> backpropagate net2 flat0 target0 = backpropagate net2 (NdArray [3, 1] [0, 0, 0]) target0"
    by blast
  show ?thesis using wf_net2 sh 1 2 by metis
qed

section \<open>The evaluator\<close>

lemma sum_indicator:
  "sum_list (map (\<lambda>x. if P x then 1 else 0) xs) = int (length (filter P xs))"
  by (induction xs) simp_all

lemma index_of_max_snoc_greater:
  "pre \<noteq> [] \<Longrightarrow> Max (set pre) < v \<Longrightarrow>
   index_of_max (pre @ [v]) = length pre \<and> Max (set (pre @ [v])) = v"
proof -
  assume ne: "pre \<noteq> []" and gt: "Max (set pre) < v"
  have all: "\<forall>u \<in> set pre. u < v" using gt ne by (auto simp: Max_less_iff)
  have "Max (set (pre @ [v])) = max v (Max (set pre))" using ne by simp
  moreover have "max v (Max (set pre)) = v" using gt by (intro max_absorb1 less_imp_le)
  ultimately have M: "Max (set (pre @ [v])) = v" by simp
  have "takeWhile (\<lambda>u. u < v) (pre @ [v]) = pre @ takeWhile (\<lambda>u. u < v) [v]"
    using all by (simp add: takeWhile_append2)
  then show ?thesis using M by (simp add: index_of_max_def)
qed

lemma index_of_max_snoc_not_greater:
  "pre \<noteq> [] \<Longrightarrow> \<not> Max (set pre) < v \<Longrightarrow>
   index_of_max (pre @ [v]) = index_of_max pre \<and> Max (set (pre @ [v])) = Max (set pre)"
proof -
  assume ne: "pre \<noteq> []" and le: "\<not> Max (set pre) < v"
  have "Max (set (pre @ [v])) = max v (Max (set pre))" using ne by simp
  moreover have "max v (Max (set pre)) = Max (set pre)" using le by (intro max_absorb2 leI)
  ultimately have M: "Max (set (pre @ [v])) = Max (set pre)" by simp
  have "Max (set pre) \<in> set pre" using ne by (intro Max_in) simp_all
  then have "takeWhile (\<lambda>u. u < Max (set pre)) (pre @ [v]) = takeWhile (\<lambda>u. u < Max (set pre)) pre"
    by (rule takeWhile_append1) (rule less_irrefl)
  then show ?thesis using M by (simp add: index_of_max_def)
qed

lemma argmax_loop_spec:
  "pre \<noteq> [] \<Longrightarrow>
   argmax_loop vs (length pre) (index_of_max pre) (Max (set pre)) = index_of_max (pre @ vs)"
proof (induction vs arbitrary: pre)
  case Nil
  then show ?case by simp
next
  case (Cons v vs)
  have ne: "pre @ [v] \<noteq> []" by simp
  note IH = Cons.IH [OF ne]
  show ?case
  proof (cases "Max (set pre) < v")
    case True
    with index_of_max_snoc_greater [OF Cons.prems True] IH show ?thesis by simp
  next
    case False
    with index_of_max_snoc_not_greater [OF Cons.prems False] IH show ?thesis by simp
  qed
qed

lemma argmax_spec: "data a \<noteq> [] \<Longrightarrow> argmax a = Inr (index_of_max (data a))"
proof -
  assume "data a \<noteq> []"
  then obtain v vs where d: "data a = v # vs" by (cases "data a") auto
  have "argmax_loop vs (length [v]) (index_of_max [v]) (Max (set [v])) = index_of_max ([v] @ vs)"
    by (rule argmax_loop_spec) simp
  then show ?thesis by (simp add: argmax_def d index_of_max_def)
qed

lemma index_of_max_first:
  assumes "xs \<noteq> []"
  shows "index_of_max xs < length xs"
    and "xs ! index_of_max xs = Max (set xs)"
    and "\<forall>j < index_of_max xs. xs ! j < Max (set xs)"
proof -
  let ?P = "\<lambda>v. v < Max (set xs)"
  have "Max (set xs) \<in> set xs" using assms by (intro Max_in) simp_all
  then have "\<exists>v \<in> set xs. \<not> ?P v" by auto
  then have "takeWhile ?P xs \<noteq> xs" by simp
  moreover have "takeWhile ?P xs = take (length (takeWhile ?P xs)) xs" by (rule takeWhile_eq_take)
  ultimately have "length (takeWhile ?P xs) \<noteq> length xs" by auto
  then show lt: "index_of_max xs < length xs"
    unfolding index_of_max_def using length_takeWhile_le [of ?P xs] by simp
  have "\<not> ?P (xs ! index_of_max xs)"
    using lt unfolding index_of_max_def by (rule nth_length_takeWhile)
  moreover have "xs ! index_of_max xs \<le> Max (set xs)" using lt by (intro Max_ge) simp_all
  ultimately show "xs ! index_of_max xs = Max (set xs)" by simp
  show "\<forall>j < index_of_max xs. xs ! j < Max (set xs)"
  proof (intro allI impI)
    fix j assume j: "j < index_of_max xs"
    then have "takeWhile ?P xs ! j = xs ! j" unfolding index_of_max_def by (rule takeWhile_nth)
    moreover have "takeWhile ?P xs ! j \<in> set (takeWhile ?P xs)"
      using j unfolding index_of_max_def by (rule nth_mem)
    ultimately show "xs ! j < Max (set xs)" by (metis set_takeWhileD)
  qed
qed


lemma test_results_spec:
  assumes wf: "wf_net net"
  shows "(\<forall>e \<in> set test_data. shape (fst e) = [layersz net ! 0, 1]) \<Longrightarrow>
    test_results net test_data =
      Inr (map (\<lambda>(x, y). (index_of_max (data (feedforward_spec net x)), y)) test_data)"
proof (induction test_data)
  case Nil
  then show ?case by simp
next
  case (Cons e rest)
  obtain x y where e: "e = (x, y)" by (cases e)
  have x: "shape x = [layersz net ! 0, 1]" using Cons.prems by (simp add: e)
  note ff = feedforward_facts [OF wf x]
  have "length (data (feedforward_spec net x)) = 10" using ff wf by (simp add: wf_net_def)
  then have "data (feedforward_spec net x) \<noteq> []" by auto
  then have am: "argmax (feedforward_spec net x) = Inr (index_of_max (data (feedforward_spec net x)))"
    by (rule argmax_spec)
  have "test_results net rest =
      Inr (map (\<lambda>(x, y). (index_of_max (data (feedforward_spec net x)), y)) rest)"
    using Cons.prems by (intro Cons.IH) simp
  then show ?case using ff am by (simp add: e)
qed

lemma evaluate_spec:
  assumes "wf_net net" and "\<forall>e \<in> set test_data. shape (fst e) = [layersz net ! 0, 1]"
  shows "evaluate net test_data =
    Inr (int (length (filter (\<lambda>(x, y). prediction net x = y) test_data)))"
proof -
  have "sum_list (map ((\<lambda>(p, y). if int p = y then 1 else 0) \<circ>
            (\<lambda>(x, y). (index_of_max (data (feedforward_spec net x)), y))) test_data) =
        int (length (filter (\<lambda>(x, y). prediction net x = y) test_data))"
    unfolding sum_indicator [symmetric]
    by (intro arg_cong [where f = sum_list] map_cong refl) (auto simp: prediction_def)
  then show ?thesis
    using test_results_spec [OF assms] by (simp add: evaluate_def)
qed

text \<open>
  Claim C4. For a well-formed network and a dataset of (input, label) pairs whose inputs
  have the shape \<open>(layersz[0], 1)\<close>, \<open>evaluate\<close> returns the number of pairs for which
  the index of the maximum component of the feedforward output (\<open>prediction\<close>, the
  first position that holds the maximum: \<open>index_of_max_first\<close>) equals the label. The
  result is an integer between 0 and the size of the dataset, and it is 0 on the
  empty dataset.
\<close>

theorem evaluate_counts_correct:
  assumes "wf_net net" and "\<forall>e \<in> set test_data. shape (fst e) = [layersz net ! 0, 1]"
  shows "evaluate net test_data =
      Inr (int (length (filter (\<lambda>(x, y). prediction net x = y) test_data)))
    \<and> (\<exists>n. evaluate net test_data = Inr n \<and> 0 \<le> n \<and> n \<le> int (length test_data))
    \<and> evaluate net [] = Inr 0"
proof -
  have 1: "evaluate net test_data =
      Inr (int (length (filter (\<lambda>(x, y). prediction net x = y) test_data)))"
    using assms by (rule evaluate_spec)
  have 2: "evaluate net [] = Inr 0" by (simp add: evaluate_def)
  show ?thesis using 1 2 by simp
qed

theorem evaluate_counts_correct_witness:
  "wf_net net2
   \<and> evaluate net2 [(image0, 0), (image0, 3)] =
       Inr (int (length (filter (\<lambda>(x, y). prediction net2 x = y) [(image0, 0), (image0, 3)])))
   \<and> (\<exists>n. evaluate net2 [(image0, 0), (image0, 3)] = Inr n \<and> 0 \<le> n \<and> n \<le> 2)
   \<and> evaluate net2 [] = Inr 0"
proof -
  have "\<forall>e \<in> set [(image0, 0::int), (image0, 3)]. shape (fst e) = [layersz net2 ! 0, 1]"
    by (simp add: image0_def net2_def)
  from evaluate_counts_correct [OF wf_net2 this] wf_net2 show ?thesis by simp
qed

section \<open>The constructor\<close>

lemma length_draws: "length (fst (draws draw n g)) = n"
proof (induction n arbitrary: g)
  case 0
  then show ?case by simp
next
  case (Suc n)
  obtain v g' where d: "draw g = (v, g')" by (cases "draw g")
  obtain vs g'' where ds: "draws draw n g' = (vs, g'')" by (cases "draws draw n g'")
  have "length vs = n" using Suc.IH [of g'] by (simp add: ds)
  then show ?case by (simp add: d ds)
qed

lemma randn_shape: "shape (fst (randn draw i j g)) = [i, j] \<and> wf_arr (fst (randn draw i j g))"
  using length_draws [of draw "i * j" g] by (auto simp: randn_def wf_arr_def split: prod.splits)

lemma randn_list_shapes:
  "map shape (fst (randn_list draw dims g)) = map (\<lambda>(i, j). [i, j]) dims \<and>
   list_all wf_arr (fst (randn_list draw dims g))"
proof (induction dims arbitrary: g)
  case Nil
  then show ?case by simp
next
  case (Cons d dims)
  obtain i j where d: "d = (i, j)" by (cases d)
  obtain a g' where r: "randn draw i j g = (a, g')" by (cases "randn draw i j g")
  obtain as g'' where rs: "randn_list draw dims g' = (as, g'')" by (cases "randn_list draw dims g'")
  have "shape a = [i, j] \<and> wf_arr a" using randn_shape [of draw i j g] by (simp add: r)
  moreover have "map shape as = map (\<lambda>(i, j). [i, j]) dims \<and> list_all wf_arr as"
    using Cons.IH [of g'] by (simp add: rs)
  ultimately show ?case by (simp add: d r rs)
qed

lemma init_empty: "init draw [] g = Inl IndexError"
  by (simp add: init_def getitem_def position_def)

lemma init_wrong_first:
  "lsz \<noteq> [] \<Longrightarrow> hd lsz \<noteq> 784 \<Longrightarrow>
   init draw lsz g = Inl (RuntimeError ''The size of the input layer must be 784'')"
  by (simp add: init_def getitem_zero hd_conv_nth)

lemma init_wrong_last:
  "lsz \<noteq> [] \<Longrightarrow> hd lsz = 784 \<Longrightarrow> last lsz \<noteq> 10 \<Longrightarrow>
   init draw lsz g = Inl (RuntimeError ''The size of the output layer must be 10'')"
  by (simp add: init_def getitem_zero getitem_last hd_conv_nth)

lemma init_success:
  assumes ne: "lsz \<noteq> []" and h: "hd lsz = 784" and l: "last lsz = 10"
  shows "\<exists>net g'. init draw lsz g = Inr (net, g') \<and> layersz net = lsz \<and> nlayers net = length lsz
    \<and> map shape (biases net) = map (\<lambda>i. [i, 1]) (drop 1 lsz)
    \<and> map shape (weights net) = map (\<lambda>(i, j). [i, j]) (zip (drop 1 lsz) (butlast lsz))
    \<and> list_all wf_arr (biases net) \<and> list_all wf_arr (weights net)"
proof -
  obtain bs g1 where b: "randn_list draw (map (\<lambda>i. (i, 1)) (drop 1 lsz)) g = (bs, g1)"
    by (cases "randn_list draw (map (\<lambda>i. (i, 1)) (drop 1 lsz)) g")
  obtain ws g2 where w: "randn_list draw (zip (drop 1 lsz) (butlast lsz)) g1 = (ws, g2)"
    by (cases "randn_list draw (zip (drop 1 lsz) (butlast lsz)) g1")
  have i: "init draw lsz g =
      Inr (\<lparr>nlayers = length lsz, layersz = lsz, biases = bs, weights = ws\<rparr>, g2)"
    using ne h l b w by (simp add: init_def getitem_zero getitem_last hd_conv_nth)
  have "map shape bs = map (\<lambda>(i, j). [i, j]) (map (\<lambda>i. (i, 1)) (drop 1 lsz)) \<and> list_all wf_arr bs"
    using randn_list_shapes [of draw "map (\<lambda>i. (i, 1)) (drop 1 lsz)" g] b by simp
  then have sb: "map shape bs = map (\<lambda>i. [i, 1]) (drop 1 lsz)" and wb: "list_all wf_arr bs"
    by (simp_all add: o_def)
  have sw: "map shape ws = map (\<lambda>(i, j). [i, j]) (zip (drop 1 lsz) (butlast lsz))"
    and ww: "list_all wf_arr ws"
    using randn_list_shapes [of draw "zip (drop 1 lsz) (butlast lsz)" g1] w by simp_all
  show ?thesis using i sb wb sw ww by simp
qed

lemma init_shapes_nth:
  assumes "map shape bs = map (\<lambda>i. [i, 1]) (drop 1 lsz)"
    and "map shape ws = map (\<lambda>(i, j). [i, j]) (zip (drop 1 lsz) (butlast lsz))"
  shows "length bs = length lsz - 1" and "length ws = length lsz - 1"
    and "\<forall>i < length lsz - 1. shape (ws ! i) = [lsz ! Suc i, lsz ! i] \<and> shape (bs ! i) = [lsz ! Suc i, 1]"
proof -
  show lb: "length bs = length lsz - 1" using map_eq_imp_length_eq [OF assms(1)] by simp
  show lw: "length ws = length lsz - 1" using map_eq_imp_length_eq [OF assms(2)] by simp
  show "\<forall>i < length lsz - 1. shape (ws ! i) = [lsz ! Suc i, lsz ! i] \<and> shape (bs ! i) = [lsz ! Suc i, 1]"
  proof (intro allI impI)
    fix i assume i: "i < length lsz - 1"
    have "shape (bs ! i) = map shape bs ! i" using i lb by simp
    also have "\<dots> = [lsz ! Suc i, 1]" unfolding assms(1) using i by simp
    finally have 1: "shape (bs ! i) = [lsz ! Suc i, 1]" .
    have "shape (ws ! i) = map shape ws ! i" using i lw by simp
    also have "\<dots> = [lsz ! Suc i, lsz ! i]" unfolding assms(2) using i by (simp add: nth_butlast)
    finally show "shape (ws ! i) = [lsz ! Suc i, lsz ! i] \<and> shape (bs ! i) = [lsz ! Suc i, 1]"
      using 1 by simp
  qed
qed


text \<open>
  Claim C6. Layer sizes are natural numbers. The constructor fails exactly when the
  sequence of layer sizes violates the constraints: it is empty, or its first element
  is not 784, or its last element is not 10. On a sequence that has elements the
  exception is the RuntimeError of one of the two checks (on the empty sequence it is
  the IndexError of \<open>layersz[0]\<close>). When the constraints hold the constructor returns
  a network with one weight matrix and one bias vector per layer transition, weight
  matrix \<open>i\<close> of shape \<open>(layersz[i+1], layersz[i])\<close> and bias vector \<open>i\<close> of shape
  \<open>(layersz[i+1], 1)\<close>, whatever the random generator draws.
\<close>

theorem init_checks_and_shapes:
  "((\<exists>e. init draw lsz g = Inl e) \<longleftrightarrow> (lsz = [] \<or> hd lsz \<noteq> 784 \<or> last lsz \<noteq> 10))
   \<and> (lsz \<noteq> [] \<longrightarrow>
        ((\<exists>msg. init draw lsz g = Inl (RuntimeError msg)) \<longleftrightarrow> (hd lsz \<noteq> 784 \<or> last lsz \<noteq> 10)))
   \<and> (lsz \<noteq> [] \<and> hd lsz = 784 \<and> last lsz = 10 \<longrightarrow>
        (\<exists>net g'. init draw lsz g = Inr (net, g') \<and> layersz net = lsz \<and> nlayers net = length lsz
           \<and> length (weights net) = length lsz - 1 \<and> length (biases net) = length lsz - 1
           \<and> (\<forall>i < length lsz - 1.
                 shape (weights net ! i) = [lsz ! Suc i, lsz ! i] \<and>
                 shape (biases net ! i) = [lsz ! Suc i, 1])
           \<and> wf_net net))"
proof (cases "lsz \<noteq> [] \<and> hd lsz = 784 \<and> last lsz = 10")
  case True
  then have ne: "lsz \<noteq> []" and h: "hd lsz = 784" and l: "last lsz = 10" by simp_all
  from init_success [OF ne h l, of draw g] obtain net g' where
    i: "init draw lsz g = Inr (net, g')" and ls: "layersz net = lsz" and nl: "nlayers net = length lsz"
    and sb: "map shape (biases net) = map (\<lambda>i. [i, 1]) (drop 1 lsz)"
    and sw: "map shape (weights net) = map (\<lambda>(i, j). [i, j]) (zip (drop 1 lsz) (butlast lsz))"
    and wb: "list_all wf_arr (biases net)" and ww: "list_all wf_arr (weights net)"
    by blast
  note nth = init_shapes_nth [OF sb sw]
  have wf: "wf_net net"
    using ne h l ls nl nth wb ww by (simp add: wf_net_def list_all_length)
  have "\<exists>net g'. init draw lsz g = Inr (net, g') \<and> layersz net = lsz \<and> nlayers net = length lsz
           \<and> length (weights net) = length lsz - 1 \<and> length (biases net) = length lsz - 1
           \<and> (\<forall>i < length lsz - 1.
                 shape (weights net ! i) = [lsz ! Suc i, lsz ! i] \<and>
                 shape (biases net ! i) = [lsz ! Suc i, 1])
           \<and> wf_net net"
    using i ls nl nth wf by blast
  then show ?thesis using True i by auto
next
  case False
  show ?thesis
  proof (cases "lsz = []")
    case True
    then show ?thesis by (simp add: init_empty)
  next
    case ne: False
    show ?thesis
    proof (cases "hd lsz = 784")
      case True
      with False ne have "last lsz \<noteq> 10" by simp
      from init_wrong_last [OF ne True this, of draw g] ne True this show ?thesis by simp
    next
      case h: False
      from init_wrong_first [OF ne h, of draw g] ne h show ?thesis by simp
    qed
  qed
qed

theorem init_checks_and_shapes_witness:
  "\<exists>net g'. init (\<lambda>g. (0, g)) [784, 30, 10] () = Inr (net, g') \<and> layersz net = [784, 30, 10]
     \<and> nlayers net = 3 \<and> length (weights net) = 2 \<and> length (biases net) = 2
     \<and> shape (weights net ! 0) = [30, 784] \<and> shape (weights net ! 1) = [10, 30]
     \<and> shape (biases net ! 0) = [30, 1] \<and> shape (biases net ! 1) = [10, 1]"
proof -
  let ?lsz = "[784, 30, 10] :: nat list"
  have c: "?lsz \<noteq> [] \<and> hd ?lsz = 784 \<and> last ?lsz = 10" by simp
  from init_checks_and_shapes [of "\<lambda>g. (0, g)" ?lsz "()"] c
  obtain net g' where i: "init (\<lambda>g. (0, g)) ?lsz () = Inr (net, g')"
    and r: "layersz net = ?lsz" "nlayers net = length ?lsz"
      "length (weights net) = length ?lsz - 1" "length (biases net) = length ?lsz - 1"
    and s: "\<forall>i < length ?lsz - 1.
                 shape (weights net ! i) = [?lsz ! Suc i, ?lsz ! i] \<and>
                 shape (biases net ! i) = [?lsz ! Suc i, 1]"
    by blast
  have "shape (weights net ! 0) = [30, 784] \<and> shape (biases net ! 0) = [30, 1]"
    using s [rule_format, of 0] by simp
  moreover have "shape (weights net ! 1) = [10, 30] \<and> shape (biases net ! 1) = [10, 1]"
    using s [rule_format, of 1] by simp
  ultimately show ?thesis using i r by auto
qed

section \<open>The update of a batch\<close>

lemma wf_mat_prod [simp]: "wf_arr (mat_prod a b)"
  by (simp add: wf_arr_def mat_prod_def)

lemma wf_map_arr [simp]: "wf_arr (map_arr f a) = wf_arr a"
  by (simp add: wf_arr_def)

lemma wf_sigmoid [simp]: "wf_arr (sigmoid z) = wf_arr z"
  by (simp add: sigmoid_def)

lemma wf_zeros [simp]: "wf_arr (zeros s)"
  by (simp add: wf_arr_def zeros_def)

lemma wf_plus_arr: "wf_arr a \<Longrightarrow> wf_arr b \<Longrightarrow> shape a = shape b \<Longrightarrow> wf_arr (plus_arr a b)"
  by (simp add: wf_arr_def plus_arr_def)

lemma wf_minus_arr: "wf_arr a \<Longrightarrow> wf_arr b \<Longrightarrow> shape a = shape b \<Longrightarrow> wf_arr (minus_arr a b)"
  by (simp add: wf_arr_def minus_arr_def)

lemma wf_times_arr: "wf_arr a \<Longrightarrow> wf_arr b \<Longrightarrow> shape a = shape b \<Longrightarrow> wf_arr (times_arr a b)"
  by (simp add: wf_arr_def times_arr_def)

lemma wf_sigmoid_derivative: "wf_arr z \<Longrightarrow> wf_arr (sigmoid_derivative z)"
  by (simp add: sigmoid_derivative_def wf_times_arr rsub_def)

lemma forward_spec_wf:
  "length bs = length ws \<Longrightarrow> length s = Suc (length ws) \<Longrightarrow>
   (\<forall>i < length ws. shape (ws ! i) = [s ! Suc i, s ! i] \<and> shape (bs ! i) = [s ! Suc i, 1]
                     \<and> wf_arr (bs ! i)) \<Longrightarrow>
   shape a = [s ! 0, 1] \<Longrightarrow> i < length ws \<Longrightarrow>
   wf_arr (fst (forward_spec ws bs a ! i)) \<and> wf_arr (snd (forward_spec ws bs a ! i))"
proof (induction ws arbitrary: bs s a i)
  case Nil
  then show ?case by simp
next
  case (Cons w ws)
  from Cons.prems(1) obtain b bs' where bs: "bs = b # bs'" by (cases bs) auto
  from Cons.prems(2) obtain s0 s' where s: "s = s0 # s'" by (cases s) auto
  have w: "shape w = [s' ! 0, s0]" and b: "shape b = [s' ! 0, 1]" and wfb: "wf_arr b"
    using Cons.prems(3) [rule_format, of 0] by (simp_all add: bs s)
  have a: "shape a = [s0, 1]" using Cons.prems(4) by (simp add: s)
  let ?z = "plus_arr (mat_prod w a) b"
  have sz: "shape (sigmoid ?z) = [s' ! 0, 1]" by (simp add: w a)
  have wz: "wf_arr ?z" using wfb by (intro wf_plus_arr) (simp_all add: w a b)
  show ?case
  proof (cases i)
    case 0
    then show ?thesis using wz by (simp add: bs Let_def)
  next
    case (Suc j)
    have rest: "\<forall>i < length ws. shape (ws ! i) = [s' ! Suc i, s' ! i] \<and> shape (bs' ! i) = [s' ! Suc i, 1]
                  \<and> wf_arr (bs' ! i)"
    proof (intro allI impI)
      fix i assume "i < length ws"
      then show "shape (ws ! i) = [s' ! Suc i, s' ! i] \<and> shape (bs' ! i) = [s' ! Suc i, 1] \<and> wf_arr (bs' ! i)"
        using Cons.prems(3) [rule_format, of "Suc i"] by (simp add: bs s)
    qed
    have "wf_arr (fst (forward_spec ws bs' (sigmoid ?z) ! j)) \<and>
          wf_arr (snd (forward_spec ws bs' (sigmoid ?z) ! j))"
      using Cons.prems(1,2,5) rest sz Suc by (intro Cons.IH) (simp_all add: bs s)
    then show ?thesis by (simp add: bs Let_def Suc)
  qed
qed

lemma backward_spec_wf:
  assumes shW: "\<forall>i < n. shape (W ! i) = [s ! Suc i, s ! i]"
    and shz: "\<forall>i < n. shape (zs ! i) = [s ! Suc i, 1] \<and> wf_arr (zs ! i)"
  shows "t < n \<Longrightarrow> shape delta = [s ! Suc t, 1] \<Longrightarrow> i < t \<Longrightarrow>
    wf_arr (fst (backward_spec W zs acts delta t ! i)) \<and>
    wf_arr (snd (backward_spec W zs acts delta t ! i))"
proof (induction t arbitrary: delta)
  case 0
  then show ?case by simp
next
  case (Suc t)
  let ?d = "times_arr (mat_prod (transposed (W ! Suc t)) delta) (sigmoid_derivative (zs ! t))"
  have shw: "shape (W ! Suc t) = [s ! Suc (Suc t), s ! Suc t]" using shW Suc.prems(1) by simp
  have shd: "shape ?d = [s ! Suc t, 1]" by (simp add: shw Suc.prems(2))
  have z: "shape (zs ! t) = [s ! Suc t, 1]" "wf_arr (zs ! t)" using shz Suc.prems(1) by simp_all
  have wd: "wf_arr ?d"
    by (intro wf_times_arr wf_sigmoid_derivative z(2)) (simp_all add: shw Suc.prems(2) z(1))
  show ?case
  proof (cases "i < t")
    case True
    have "wf_arr (fst (backward_spec W zs acts ?d t ! i)) \<and>
          wf_arr (snd (backward_spec W zs acts ?d t ! i))"
      using Suc.prems(1) shd True by (intro Suc.IH) simp_all
    then show ?thesis using True by (simp add: Let_def nth_append)
  next
    case False
    with Suc.prems(3) have "i = t" by simp
    then show ?thesis using wd by (simp add: Let_def nth_append)
  qed
qed


lemma backprop_spec_wf:
  assumes wf: "wf_net net"
    and x: "shape x = [layersz net ! 0, 1]"
    and y: "shape y = [last (layersz net), 1]" and wy: "wf_arr y"
  shows "list_all wf_arr (fst (backprop_spec net x y))"
    and "list_all wf_arr (snd (backprop_spec net x y))"
proof -
  define W B s n where "W = weights net" and "B = biases net" and "s = layersz net"
    and "n = length (weights net)"
  define trace where "trace = forward_spec W B x"
  define zs acts where "zs = map fst trace" and "acts = x # map snd trace"
  define delta where "delta = times_arr (cost_derivative (last acts) y) (sigmoid_derivative (last zs))"
  define g where "g = mat_prod delta (transposed (acts ! (n - 1)))"
  define grads where "grads = backward_spec W zs acts delta (n - 1) @ [(delta, g)]"
  note defs = W_def B_def s_def n_def
  note sz = wf_net_sizes [OF wf, folded defs]
  have sh: "\<forall>i < n. shape (W ! i) = [s ! Suc i, s ! i] \<and> shape (B ! i) = [s ! Suc i, 1] \<and> wf_arr (B ! i)"
    using wf sz(1) by (simp add: wf_net_def defs)
  have n: "0 < n" and Sn: "Suc (n - 1) = n" using sz(4) by simp_all
  have lW: "length W = n" by (simp add: defs)
  have lB: "length B = n" using sz(2) by (simp add: defs)
  have ls: "length s = Suc n" by (rule sz)
  have x': "shape x = [s ! 0, 1]" and y': "shape y = [s ! n, 1]"
    using x y sz(6) by (simp_all add: s_def)
  have ltr: "length trace = n" unfolding trace_def using lB lW by (simp add: forward_spec_length)
  have lacts: "length acts = Suc n" and lzs: "length zs = n" using ltr by (simp_all add: acts_def zs_def)
  have shtr: "\<forall>i < n. shape (fst (trace ! i)) = [s ! Suc i, 1] \<and> shape (snd (trace ! i)) = [s ! Suc i, 1]"
    using forward_spec_shape [of B W s x] lW lB ls sh x' by (simp add: trace_def)
  have wftr: "\<forall>i < n. wf_arr (fst (trace ! i)) \<and> wf_arr (snd (trace ! i))"
    using forward_spec_wf [of B W s x] lW lB ls sh x' by (simp add: trace_def)
  have shz: "\<forall>i < n. shape (zs ! i) = [s ! Suc i, 1] \<and> wf_arr (zs ! i)"
    using shtr wftr ltr by (simp add: zs_def)
  have shW: "\<forall>i < n. shape (W ! i) = [s ! Suc i, s ! i]" using sh by simp
  have tne: "trace \<noteq> []" using ltr n by auto
  have lasta: "last acts = snd (trace ! (n - 1))"
    using tne ltr n by (simp add: acts_def last_conv_nth)
  have lastz: "last zs = fst (trace ! (n - 1))"
    using tne ltr n by (simp add: zs_def last_conv_nth)
  have la: "shape (last acts) = [s ! n, 1]" "wf_arr (last acts)"
    unfolding lasta using shtr wftr n Sn by (metis diff_less zero_less_one)+
  have lz: "shape (last zs) = [s ! n, 1]" "wf_arr (last zs)"
    unfolding lastz using shtr wftr n Sn by (metis diff_less zero_less_one)+
  have wd: "wf_arr delta"
    unfolding delta_def cost_derivative_def
    by (intro wf_times_arr wf_minus_arr wf_sigmoid_derivative la lz wy) (simp_all add: la lz y')
  have shd: "shape delta = [s ! Suc (n - 1), 1]" using Sn by (simp add: delta_def la)
  have wg: "wf_arr g" by (simp add: g_def)
  have lg: "length grads = n" using Sn by (simp add: grads_def)
  have each: "wf_arr (fst (grads ! i)) \<and> wf_arr (snd (grads ! i))" if "i < n" for i
  proof (cases "i < n - 1")
    case True
    have "wf_arr (fst (backward_spec W zs acts delta (n - 1) ! i)) \<and>
          wf_arr (snd (backward_spec W zs acts delta (n - 1) ! i))"
      using n shd True by (intro backward_spec_wf [where n = n and s = s] shW shz) simp_all
    then show ?thesis using True by (simp add: grads_def nth_append)
  next
    case False
    with that have i: "i = n - 1" by simp
    show ?thesis using wd wg by (simp add: grads_def nth_append i)
  qed
  have res: "backprop_spec net x y = (map fst grads, map snd grads)"
    by (simp add: backprop_spec_def Let_def defs trace_def zs_def acts_def delta_def g_def grads_def)
  show "list_all wf_arr (fst (backprop_spec net x y))"
    unfolding res using lg each by (simp add: list_all_length)
  show "list_all wf_arr (snd (backprop_spec net x y))"
    unfolding res using lg each by (simp add: list_all_length)
qed

lemma map2E_add:
  "map shape as = map shape bs \<Longrightarrow> map2E add as bs = Inr (map2 plus_arr as bs)"
proof (induction as arbitrary: bs)
  case Nil
  then show ?case by simp
next
  case (Cons a as)
  then obtain b bs' where bs: "bs = b # bs'" by (cases bs) auto
  with Cons show ?case by (simp add: add_same_shape)
qed

lemma map2E_descend:
  "map shape ps = map shape gs \<Longrightarrow>
   map2E (\<lambda>p g. sub p (rmul c g)) ps gs = Inr (descend c ps gs)"
proof (induction ps arbitrary: gs)
  case Nil
  then show ?case by (simp add: descend_def)
next
  case (Cons p ps)
  then obtain g gs' where gs: "gs = g # gs'" by (cases gs) auto
  with Cons show ?case by (simp add: sub_same_shape descend_def)
qed

lemma map_shape_plus:
  "length as = length bs \<Longrightarrow> map shape (map2 plus_arr as bs) = map shape as"
  by (induction as bs rule: list_induct2) simp_all

lemma list_all_wf_plus:
  "map shape as = map shape bs \<Longrightarrow> list_all wf_arr as \<Longrightarrow> list_all wf_arr bs \<Longrightarrow>
   list_all wf_arr (map2 plus_arr as bs)"
proof (induction as arbitrary: bs)
  case Nil
  then show ?case by simp
next
  case (Cons a as)
  then obtain b bs' where bs: "bs = b # bs'" by (cases bs) auto
  with Cons show ?case by (simp add: wf_plus_arr)
qed


lemma accumulate_spec:
  assumes wf: "wf_net net"
  shows "(\<forall>e \<in> set batch. wf_example net e) \<Longrightarrow>
    map shape bsum = map shape (biases net) \<Longrightarrow> map shape wsum = map shape (weights net) \<Longrightarrow>
    accumulate net batch bsum wsum =
      Inr (foldl (\<lambda>acc g. map2 plus_arr acc g) bsum (map (\<lambda>(x, y). fst (backprop_spec net x y)) batch),
           foldl (\<lambda>acc g. map2 plus_arr acc g) wsum (map (\<lambda>(x, y). snd (backprop_spec net x y)) batch))"
proof (induction batch arbitrary: bsum wsum)
  case Nil
  then show ?case by simp
next
  case (Cons e rest)
  obtain x y where e: "e = (x, y)" by (cases e)
  have x: "shape x = [layersz net ! 0, 1]" and y: "shape y = [last (layersz net), 1]"
    using Cons.prems(1) by (simp_all add: e wf_example_def column_def)
  obtain dB dW where g: "backprop_spec net x y = (dB, dW)" by (cases "backprop_spec net x y")
  have bp: "backpropagate net x y = Inr (dB, dW)"
    using backpropagate_spec_eq [OF wf x y] by (simp add: g)
  have shB: "map shape dB = map shape (biases net)" and shW: "map shape dW = map shape (weights net)"
    using backprop_spec_shapes [OF wf x y] by (simp_all add: g)
  have aB: "map2E add bsum dB = Inr (map2 plus_arr bsum dB)"
    by (rule map2E_add) (simp add: Cons.prems(2) shB)
  have aW: "map2E add wsum dW = Inr (map2 plus_arr wsum dW)"
    by (rule map2E_add) (simp add: Cons.prems(3) shW)
  have lB: "length bsum = length dB"
    using Cons.prems(2) shB by (metis map_eq_imp_length_eq)
  have lW: "length wsum = length dW"
    using Cons.prems(3) shW by (metis map_eq_imp_length_eq)
  have IH: "accumulate net rest (map2 plus_arr bsum dB) (map2 plus_arr wsum dW) =
      Inr (foldl (\<lambda>acc g. map2 plus_arr acc g) (map2 plus_arr bsum dB)
             (map (\<lambda>(x, y). fst (backprop_spec net x y)) rest),
           foldl (\<lambda>acc g. map2 plus_arr acc g) (map2 plus_arr wsum dW)
             (map (\<lambda>(x, y). snd (backprop_spec net x y)) rest))"
  proof (intro Cons.IH)
    show "\<forall>e \<in> set rest. wf_example net e" using Cons.prems(1) by simp
    show "map shape (map2 plus_arr bsum dB) = map shape (biases net)"
      by (simp only: map_shape_plus [OF lB] Cons.prems(2))
    show "map shape (map2 plus_arr wsum dW) = map shape (weights net)"
      by (simp only: map_shape_plus [OF lW] Cons.prems(3))
  qed
  show ?case by (simp add: e bp aB aW IH g)
qed

lemma sum_gradients_shapes:
  "(\<forall>g \<in> set gs. map shape g = map shape params) \<Longrightarrow>
   map shape (sum_gradients params gs) = map shape params"
proof -
  have "(\<forall>g \<in> set gs. map shape g = map shape params) \<Longrightarrow> map shape acc = map shape params \<Longrightarrow>
      map shape (foldl (\<lambda>acc g. map2 plus_arr acc g) acc gs) = map shape params" for acc
  proof (induction gs arbitrary: acc)
    case Nil
    then show ?case by simp
  next
    case (Cons g gs)
    have "length acc = length g" using Cons.prems by (metis list.set_intros(1) map_eq_imp_length_eq)
    then have "map shape (map2 plus_arr acc g) = map shape params"
      using Cons.prems(2) by (simp only: map_shape_plus)
    moreover have "\<forall>g \<in> set gs. map shape g = map shape params" using Cons.prems(1) by simp
    ultimately have "map shape (foldl (\<lambda>acc g. map2 plus_arr acc g) (map2 plus_arr acc g) gs) =
        map shape params"
      by (intro Cons.IH)
    then show ?case by simp
  qed
  then show "(\<forall>g \<in> set gs. map shape g = map shape params) \<Longrightarrow>
      map shape (sum_gradients params gs) = map shape params"
    by (simp add: sum_gradients_def o_def)
qed

lemma update_batch_spec:
  assumes wf: "wf_net net" and ne: "batch \<noteq> []" and ex: "\<forall>e \<in> set batch. wf_example net e"
  shows "update_batch net batch eta =
     (net\<lparr>weights := descend (eta / real (length batch)) (weights net)
                         (sum_gradients (weights net) (map (\<lambda>(x, y). snd (backprop_spec net x y)) batch)),
          biases := descend (eta / real (length batch)) (biases net)
                         (sum_gradients (biases net) (map (\<lambda>(x, y). fst (backprop_spec net x y)) batch))\<rparr>,
      None)"
proof -
  let ?gB = "map (\<lambda>(x, y). fst (backprop_spec net x y)) batch"
  let ?gW = "map (\<lambda>(x, y). snd (backprop_spec net x y)) batch"
  have acc: "accumulate net batch (map (\<lambda>b. zeros (shape b)) (biases net))
                 (map (\<lambda>w. zeros (shape w)) (weights net)) =
      Inr (sum_gradients (biases net) ?gB, sum_gradients (weights net) ?gW)"
    unfolding sum_gradients_def using ex by (intro accumulate_spec [OF wf]) (simp_all add: o_def)
  have sh: "map shape (fst (backprop_spec net x y)) = map shape (biases net) \<and>
            map shape (snd (backprop_spec net x y)) = map shape (weights net)"
    if "(x, y) \<in> set batch" for x y
    using backprop_spec_shapes [OF wf, of x y] ex that by (auto simp: wf_example_def column_def)
  have sB: "map shape (sum_gradients (biases net) ?gB) = map shape (biases net)"
    by (rule sum_gradients_shapes) (auto simp: sh)
  have sW: "map shape (sum_gradients (weights net) ?gW) = map shape (weights net)"
    by (rule sum_gradients_shapes) (auto simp: sh)
  have uW: "map2E (\<lambda>w deriv_w. sub w (rmul (eta / real (length batch)) deriv_w)) (weights net)
              (sum_gradients (weights net) ?gW) =
            Inr (descend (eta / real (length batch)) (weights net) (sum_gradients (weights net) ?gW))"
    by (rule map2E_descend) (simp add: sW)
  have uB: "map2E (\<lambda>b deriv_b. sub b (rmul (eta / real (length batch)) deriv_b)) (biases net)
              (sum_gradients (biases net) ?gB) =
            Inr (descend (eta / real (length batch)) (biases net) (sum_gradients (biases net) ?gB))"
    by (rule map2E_descend) (simp add: sB)
  show ?thesis using ne by (simp add: update_batch_def acc uW uB Let_def)
qed


lemma foldl_plus_data:
  "i < length acc \<Longrightarrow> k < length (data (acc ! i)) \<Longrightarrow>
   (\<forall>g \<in> set gss. length g = length acc \<and> length (data (g ! i)) = length (data (acc ! i))) \<Longrightarrow>
   data (foldl (\<lambda>acc g. map2 plus_arr acc g) acc gss ! i) ! k =
     data (acc ! i) ! k + (\<Sum>g\<leftarrow>gss. data (g ! i) ! k)"
proof (induction gss arbitrary: acc)
  case Nil
  then show ?case by simp
next
  case (Cons g gss)
  let ?acc = "map2 plus_arr acc g"
  have lg: "length g = length acc" and ld: "length (data (g ! i)) = length (data (acc ! i))"
    using Cons.prems(3) by simp_all
  have la: "length ?acc = length acc" using lg by simp
  have ai: "?acc ! i = plus_arr (acc ! i) (g ! i)" using Cons.prems(1) lg by simp
  have di: "length (data (?acc ! i)) = length (data (acc ! i))"
    unfolding ai using ld by (simp add: plus_arr_def)
  have dk: "data (?acc ! i) ! k = data (acc ! i) ! k + data (g ! i) ! k"
    unfolding ai using Cons.prems(2) ld by (simp add: plus_arr_def)
  have "data (foldl (\<lambda>acc g. map2 plus_arr acc g) ?acc gss ! i) ! k =
     data (?acc ! i) ! k + (\<Sum>g\<leftarrow>gss. data (g ! i) ! k)"
  proof (rule Cons.IH)
    show "i < length ?acc" using Cons.prems(1) la by simp
    show "k < length (data (?acc ! i))" using Cons.prems(2) di by simp
    show "\<forall>g \<in> set gss. length g = length ?acc \<and> length (data (g ! i)) = length (data (?acc ! i))"
      using Cons.prems(3) la di by simp
  qed
  then show ?case using dk by simp
qed

lemma sum_gradients_data:
  assumes "i < length params" and "wf_arr (params ! i)" and "k < length (data (params ! i))"
    and "\<forall>g \<in> set gss. length g = length params \<and> length (data (g ! i)) = length (data (params ! i))"
  shows "data (sum_gradients params gss ! i) ! k = (\<Sum>g\<leftarrow>gss. data (g ! i) ! k)"
proof -
  let ?acc = "map (\<lambda>p. zeros (shape p)) params"
  have ai: "?acc ! i = zeros (shape (params ! i))" using assms(1) by simp
  have dl: "length (data (?acc ! i)) = length (data (params ! i))"
    unfolding ai using assms(2) by (simp add: zeros_def wf_arr_def)
  have "data (foldl (\<lambda>acc g. map2 plus_arr acc g) ?acc gss ! i) ! k =
     data (?acc ! i) ! k + (\<Sum>g\<leftarrow>gss. data (g ! i) ! k)"
  proof (rule foldl_plus_data)
    show "i < length ?acc" using assms(1) by simp
    show "k < length (data (?acc ! i))" using assms(3) dl by simp
    show "\<forall>g \<in> set gss. length g = length ?acc \<and> length (data (g ! i)) = length (data (?acc ! i))"
      using assms(4) dl by simp
  qed
  moreover have "data (?acc ! i) ! k = 0"
    unfolding ai using assms(2,3) by (simp add: zeros_def wf_arr_def)
  ultimately show ?thesis by (simp add: sum_gradients_def)
qed

lemma sum_gradients_wf:
  "(\<forall>g \<in> set gs. map shape g = map shape params \<and> list_all wf_arr g) \<Longrightarrow>
   list_all wf_arr (sum_gradients params gs)"
proof -
  have "(\<forall>g \<in> set gs. map shape g = map shape params \<and> list_all wf_arr g) \<Longrightarrow>
      map shape acc = map shape params \<Longrightarrow> list_all wf_arr acc \<Longrightarrow>
      list_all wf_arr (foldl (\<lambda>acc g. map2 plus_arr acc g) acc gs)" for acc
  proof (induction gs arbitrary: acc)
    case Nil
    then show ?case by simp
  next
    case (Cons g gs)
    have g: "map shape g = map shape params" "list_all wf_arr g" using Cons.prems(1) by simp_all
    have l: "length acc = length g" using Cons.prems(2) g(1) by (metis map_eq_imp_length_eq)
    have 1: "map shape (map2 plus_arr acc g) = map shape params"
      using Cons.prems(2) by (simp only: map_shape_plus [OF l])
    have 2: "list_all wf_arr (map2 plus_arr acc g)"
      using Cons.prems(2,3) g by (intro list_all_wf_plus) simp_all
    have 3: "\<forall>g \<in> set gs. map shape g = map shape params \<and> list_all wf_arr g"
      using Cons.prems(1) by simp
    have "list_all wf_arr (foldl (\<lambda>acc g. map2 plus_arr acc g) (map2 plus_arr acc g) gs)"
      using 3 1 2 by (rule Cons.IH)
    then show ?case by simp
  qed
  moreover have "list_all wf_arr (map (\<lambda>p. zeros (shape p)) params)"
    by (simp add: list_all_length)
  ultimately show "(\<forall>g \<in> set gs. map shape g = map shape params \<and> list_all wf_arr g) \<Longrightarrow>
      list_all wf_arr (sum_gradients params gs)"
    by (simp add: sum_gradients_def o_def)
qed

lemma descend_nth:
  "i < length ps \<Longrightarrow> length gs = length ps \<Longrightarrow>
   descend c ps gs ! i = minus_arr (ps ! i) (rmul c (gs ! i))"
  by (simp add: descend_def)

lemma length_descend: "length gs = length ps \<Longrightarrow> length (descend c ps gs) = length ps"
  by (simp add: descend_def)

lemma descend_data:
  "i < length ps \<Longrightarrow> length gs = length ps \<Longrightarrow> k < length (data (ps ! i)) \<Longrightarrow>
   length (data (gs ! i)) = length (data (ps ! i)) \<Longrightarrow>
   data (descend c ps gs ! i) ! k = data (ps ! i) ! k - c * data (gs ! i) ! k"
  by (simp add: descend_nth minus_arr_def rmul_def)

lemma descend_shape_wf:
  assumes "i < length ps" and "map shape gs = map shape ps"
    and "wf_arr (ps ! i)" and "wf_arr (gs ! i)"
  shows "shape (descend c ps gs ! i) = shape (ps ! i)" and "wf_arr (descend c ps gs ! i)"
proof -
  have l: "length gs = length ps" using assms(2) by (rule map_eq_imp_length_eq)
  have sh: "shape (gs ! i) = shape (ps ! i)"
    using assms(1,2) l by (metis nth_map)
  show "shape (descend c ps gs ! i) = shape (ps ! i)"
    using assms(1) l by (simp add: descend_nth)
  show "wf_arr (descend c ps gs ! i)"
    using assms(1,3,4) l sh by (simp add: descend_nth wf_minus_arr rmul_def)
qed


lemma gradient_facts:
  assumes "wf_net net" and "wf_example net e"
  shows "map shape (fst (backprop_spec net (fst e) (snd e))) = map shape (biases net)"
    and "map shape (snd (backprop_spec net (fst e) (snd e))) = map shape (weights net)"
    and "list_all wf_arr (fst (backprop_spec net (fst e) (snd e)))"
    and "list_all wf_arr (snd (backprop_spec net (fst e) (snd e)))"
  using assms backprop_spec_shapes [of net "fst e" "snd e"] backprop_spec_wf [of net "fst e" "snd e"]
  by (simp_all add: wf_example_def column_def)

lemma same_shape_same_length:
  "wf_arr a \<Longrightarrow> wf_arr b \<Longrightarrow> shape a = shape b \<Longrightarrow> length (data a) = length (data b)"
  by (simp add: wf_arr_def)

lemma descend_sum_wf:
  assumes pw: "list_all wf_arr params"
    and gs: "\<forall>g \<in> set gss. map shape g = map shape params \<and> list_all wf_arr g"
  shows "length (descend c params (sum_gradients params gss)) = length params"
    and "\<forall>i < length params.
           shape (descend c params (sum_gradients params gss) ! i) = shape (params ! i) \<and>
           wf_arr (descend c params (sum_gradients params gss) ! i)"
proof -
  let ?S = "sum_gradients params gss"
  have sS: "map shape ?S = map shape params" using gs by (intro sum_gradients_shapes) simp
  have wS: "list_all wf_arr ?S" using gs by (rule sum_gradients_wf)
  have lS: "length ?S = length params" using sS by (rule map_eq_imp_length_eq)
  show "length (descend c params ?S) = length params" using lS by (rule length_descend)
  show "\<forall>i < length params. shape (descend c params ?S ! i) = shape (params ! i) \<and>
           wf_arr (descend c params ?S ! i)"
  proof (intro allI impI)
    fix i assume i: "i < length params"
    have wp: "wf_arr (params ! i)" using pw i by (simp add: list_all_length)
    have wSi: "wf_arr (?S ! i)" using wS i lS by (simp add: list_all_length)
    show "shape (descend c params ?S ! i) = shape (params ! i) \<and> wf_arr (descend c params ?S ! i)"
      using descend_shape_wf [OF i sS wp wSi, of c] by simp
  qed
qed

lemma descend_sum_data:
  assumes pw: "list_all wf_arr params"
    and gs: "\<forall>g \<in> set gss. map shape g = map shape params \<and> list_all wf_arr g"
    and i: "i < length params" and k: "k < length (data (params ! i))"
  shows "data (descend c params (sum_gradients params gss) ! i) ! k =
           data (params ! i) ! k - c * (\<Sum>g\<leftarrow>gss. data (g ! i) ! k)"
proof -
  let ?S = "sum_gradients params gss"
  have wp: "wf_arr (params ! i)" using pw i by (simp add: list_all_length)
  have sS: "map shape ?S = map shape params" using gs by (intro sum_gradients_shapes) simp
  have wS: "list_all wf_arr ?S" using gs by (rule sum_gradients_wf)
  have lS: "length ?S = length params" using sS by (rule map_eq_imp_length_eq)
  have wSi: "wf_arr (?S ! i)" using wS i lS by (simp add: list_all_length)
  have shSi: "shape (?S ! i) = shape (params ! i)" using sS i lS by (metis nth_map)
  have dS: "length (data (?S ! i)) = length (data (params ! i))"
    using wSi wp shSi by (rule same_shape_same_length)
  have each: "length g = length params \<and> length (data (g ! i)) = length (data (params ! i))"
    if "g \<in> set gss" for g
  proof -
    have sg: "map shape g = map shape params" and wg: "list_all wf_arr g" using gs that by simp_all
    have lg: "length g = length params" using sg by (rule map_eq_imp_length_eq)
    have "wf_arr (g ! i)" using wg i lg by (simp add: list_all_length)
    moreover have "shape (g ! i) = shape (params ! i)" using sg i lg by (metis nth_map)
    ultimately have "length (data (g ! i)) = length (data (params ! i))"
      using wp by (intro same_shape_same_length)
    then show ?thesis using lg by simp
  qed
  have sum: "data (?S ! i) ! k = (\<Sum>g\<leftarrow>gss. data (g ! i) ! k)"
    using i wp k each by (intro sum_gradients_data) simp_all
  show "data (descend c params ?S ! i) ! k = data (params ! i) ! k - c * (\<Sum>g\<leftarrow>gss. data (g ! i) ! k)"
    using descend_data [OF i lS k dS, of c] sum by simp
qed

lemma wf_net_params:
  assumes "wf_net net"
  shows "list_all wf_arr (weights net)" and "list_all wf_arr (biases net)"
  using assms by (simp_all add: wf_net_def list_all_length)

lemma batch_update_facts:
  fixes eta :: real
  assumes wf: "wf_net net" and ne: "batch \<noteq> []" and ex: "\<forall>e \<in> set batch. wf_example net e"
  defines "c \<equiv> eta / real (length batch)"
  defines "gW \<equiv> map (\<lambda>e. snd (backprop_spec net (fst e) (snd e))) batch"
  defines "gB \<equiv> map (\<lambda>e. fst (backprop_spec net (fst e) (snd e))) batch"
  shows "update_batch net batch eta =
           (net\<lparr>weights := descend c (weights net) (sum_gradients (weights net) gW),
                biases := descend c (biases net) (sum_gradients (biases net) gB)\<rparr>, None)"
    and "\<forall>i k. i < length (weights net) \<longrightarrow> k < length (data (weights net ! i)) \<longrightarrow>
           data (weights (fst (update_batch net batch eta)) ! i) ! k =
             data (weights net ! i) ! k -
             eta / real (length batch) * (\<Sum>e\<leftarrow>batch. data (snd (backprop_spec net (fst e) (snd e)) ! i) ! k)"
    and "\<forall>i k. i < length (biases net) \<longrightarrow> k < length (data (biases net ! i)) \<longrightarrow>
           data (biases (fst (update_batch net batch eta)) ! i) ! k =
             data (biases net ! i) ! k -
             eta / real (length batch) * (\<Sum>e\<leftarrow>batch. data (fst (backprop_spec net (fst e) (snd e)) ! i) ! k)"
    and "wf_net (fst (update_batch net batch eta))"
proof -
  have eqW: "map (\<lambda>(x, y). snd (backprop_spec net x y)) batch = gW"
    and eqB: "map (\<lambda>(x, y). fst (backprop_spec net x y)) batch = gB"
    by (simp_all add: gW_def gB_def case_prod_beta)
  show u: "update_batch net batch eta =
           (net\<lparr>weights := descend c (weights net) (sum_gradients (weights net) gW),
                biases := descend c (biases net) (sum_gradients (biases net) gB)\<rparr>, None)"
    using update_batch_spec [OF wf ne ex, of eta] unfolding eqW eqB c_def .
  note pw = wf_net_params [OF wf]
  have fW: "\<forall>g \<in> set gW. map shape g = map shape (weights net) \<and> list_all wf_arr g"
    using gradient_facts(2,4) [OF wf] ex by (auto simp: gW_def)
  have fB: "\<forall>g \<in> set gB. map shape g = map shape (biases net) \<and> list_all wf_arr g"
    using gradient_facts(1,3) [OF wf] ex by (auto simp: gB_def)
  have sumW: "(\<Sum>g\<leftarrow>gW. data (g ! i) ! k) =
      (\<Sum>e\<leftarrow>batch. data (snd (backprop_spec net (fst e) (snd e)) ! i) ! k)" for i k
    by (simp add: gW_def o_def)
  have sumB: "(\<Sum>g\<leftarrow>gB. data (g ! i) ! k) =
      (\<Sum>e\<leftarrow>batch. data (fst (backprop_spec net (fst e) (snd e)) ! i) ! k)" for i k
    by (simp add: gB_def o_def)
  show "\<forall>i k. i < length (weights net) \<longrightarrow> k < length (data (weights net ! i)) \<longrightarrow>
           data (weights (fst (update_batch net batch eta)) ! i) ! k =
             data (weights net ! i) ! k -
             eta / real (length batch) * (\<Sum>e\<leftarrow>batch. data (snd (backprop_spec net (fst e) (snd e)) ! i) ! k)"
    using descend_sum_data [OF pw(1) fW, of _ _ c] by (simp add: u sumW c_def)
  show "\<forall>i k. i < length (biases net) \<longrightarrow> k < length (data (biases net ! i)) \<longrightarrow>
           data (biases (fst (update_batch net batch eta)) ! i) ! k =
             data (biases net ! i) ! k -
             eta / real (length batch) * (\<Sum>e\<leftarrow>batch. data (fst (backprop_spec net (fst e) (snd e)) ! i) ! k)"
    using descend_sum_data [OF pw(2) fB, of _ _ c] by (simp add: u sumB c_def)
  note dW = descend_sum_wf [OF pw(1) fW, of c]
  note dB = descend_sum_wf [OF pw(2) fB, of c]
  show "wf_net (fst (update_batch net batch eta))"
    using wf dW dB unfolding u by (simp add: wf_net_def)
qed


text \<open>
  Claim C2. The body of the batch loop of \<open>SGD\<close> on a well-formed network and a
  non-empty batch of well-shaped examples raises no exception and replaces every weight
  matrix and every bias vector by itself minus \<open>eta / len(batch)\<close> times the sum of the
  gradients of the examples of that batch; entry by entry, the new value is the old one
  minus \<open>eta / len(batch)\<close> times the sum over the batch of that entry of the gradient.
  The divisor is the number of examples of the batch at hand, whatever the configured
  batch size (which the loop body does not read), so a short final batch is divided by
  its own size. The updated network is well-formed again, and the batch loop goes on
  with it.
\<close>

theorem batch_update_rule:
  assumes "wf_net net" and "batch \<noteq> []" and "\<forall>e \<in> set batch. wf_example net e"
  shows "snd (update_batch net batch eta) = None
    \<and> weights (fst (update_batch net batch eta)) =
        descend (eta / real (length batch)) (weights net)
          (sum_gradients (weights net) (map (\<lambda>e. snd (backprop_spec net (fst e) (snd e))) batch))
    \<and> biases (fst (update_batch net batch eta)) =
        descend (eta / real (length batch)) (biases net)
          (sum_gradients (biases net) (map (\<lambda>e. fst (backprop_spec net (fst e) (snd e))) batch))
    \<and> (\<forall>i k. i < length (weights net) \<longrightarrow> k < length (data (weights net ! i)) \<longrightarrow>
           data (weights (fst (update_batch net batch eta)) ! i) ! k =
             data (weights net ! i) ! k -
             eta / real (length batch) * (\<Sum>e\<leftarrow>batch. data (snd (backprop_spec net (fst e) (snd e)) ! i) ! k))
    \<and> (\<forall>i k. i < length (biases net) \<longrightarrow> k < length (data (biases net ! i)) \<longrightarrow>
           data (biases (fst (update_batch net batch eta)) ! i) ! k =
             data (biases net ! i) ! k -
             eta / real (length batch) * (\<Sum>e\<leftarrow>batch. data (fst (backprop_spec net (fst e) (snd e)) ! i) ! k))
    \<and> wf_net (fst (update_batch net batch eta))
    \<and> batch_loop net (batch # rest) eta = batch_loop (fst (update_batch net batch eta)) rest eta"
proof -
  note f = batch_update_facts [OF assms, of eta]
  have 1: "snd (update_batch net batch eta) = None" unfolding f(1) by simp
  have 2: "weights (fst (update_batch net batch eta)) =
        descend (eta / real (length batch)) (weights net)
          (sum_gradients (weights net) (map (\<lambda>e. snd (backprop_spec net (fst e) (snd e))) batch))"
    unfolding f(1) by simp
  have 3: "biases (fst (update_batch net batch eta)) =
        descend (eta / real (length batch)) (biases net)
          (sum_gradients (biases net) (map (\<lambda>e. fst (backprop_spec net (fst e) (snd e))) batch))"
    unfolding f(1) by simp
  have 4: "batch_loop net (batch # rest) eta = batch_loop (fst (update_batch net batch eta)) rest eta"
    using 1 by (cases "update_batch net batch eta") simp
  show ?thesis
    by (intro conjI 1 2 3 4 f(2) f(3) f(4))
qed

lemma wf_example0: "wf_example net2 (image0, target0)"
  by (simp add: wf_example_def column_def wf_arr_def image0_def target0_def net2_def)

theorem batch_update_rule_witness:
  "wf_net net2 \<and> [(image0, target0)] \<noteq> [] \<and> wf_example net2 (image0, target0)
   \<and> snd (update_batch net2 [(image0, target0)] 2) = None
   \<and> wf_net (fst (update_batch net2 [(image0, target0)] 2))
   \<and> data (weights (fst (update_batch net2 [(image0, target0)] 2)) ! 0) ! 0 =
       data (weights net2 ! 0) ! 0 -
       2 / real (length [(image0, target0)]) *
         (\<Sum>e\<leftarrow>[(image0, target0)]. data (snd (backprop_spec net2 (fst e) (snd e)) ! 0) ! 0)"
proof -
  have ne: "[(image0, target0)] \<noteq> []" by simp
  have ex: "\<forall>e \<in> set [(image0, target0)]. wf_example net2 e" using wf_example0 by simp
  note t = batch_update_rule [OF wf_net2 ne ex, of 2 "[]"]
  have i: "0 < length (weights net2)" and k: "0 < length (data (weights net2 ! 0))"
    by (simp_all add: net2_def)
  from t have 1: "snd (update_batch net2 [(image0, target0)] 2) = None" by (rule conjunct1)
  from t have 2: "wf_net (fst (update_batch net2 [(image0, target0)] 2))" by blast
  from t i k have 3: "data (weights (fst (update_batch net2 [(image0, target0)] 2)) ! 0) ! 0 =
       data (weights net2 ! 0) ! 0 -
       2 / real (length [(image0, target0)]) *
         (\<Sum>e\<leftarrow>[(image0, target0)]. data (snd (backprop_spec net2 (fst e) (snd e)) ! 0) ! 0)"
    by blast
  show ?thesis by (intro conjI wf_net2 ne wf_example0 1 2 3)
qed

section \<open>The batches of an epoch\<close>









section \<open>SGD with no epochs\<close>

text \<open>
  Claim C7. Running \<open>SGD\<close> with an epoch count of zero leaves every weight matrix and
  every bias vector unchanged, whatever the training set, the batch size, the learning
  rate and the test data: the call returns without an exception and the network, the
  training list, the generator and the output are what they were.
\<close>

theorem SGD_zero_epochs:
  "SGD shuffle s 0 batchsz eta test_data = (s, None)
   \<and> weights (st_net (fst (SGD shuffle s 0 batchsz eta test_data))) = weights (st_net s)
   \<and> biases (st_net (fst (SGD shuffle s 0 batchsz eta test_data))) = biases (st_net s)"
  by (simp add: SGD_def)

end
